theory Spec2Isabelle
  imports Main
begin

section \<open>Strings and characters\<close>

text \<open>
  A JavaScript string is modelled as a \<^typ>\<open>string\<close>, a list of code units below 256.
  The character classes are those of the URL Standard and of ECMAScript.
\<close>

definition asciiLower :: "char \<Rightarrow> char" where
  "asciiLower c =
     (case map_of (zip ''ABCDEFGHIJKLMNOPQRSTUVWXYZ'' ''abcdefghijklmnopqrstuvwxyz'') c of
        Some l \<Rightarrow> l
      | None \<Rightarrow> c)"

definition isAsciiDigit :: "char \<Rightarrow> bool" where
  "isAsciiDigit c \<longleftrightarrow> c \<in> set ''0123456789''"

definition isAsciiAlpha :: "char \<Rightarrow> bool" where
  "isAsciiAlpha c \<longleftrightarrow>
     c \<in> set ''ABCDEFGHIJKLMNOPQRSTUVWXYZabcdefghijklmnopqrstuvwxyz''"

definition isC0ControlOrSpace :: "char \<Rightarrow> bool" where
  "isC0ControlOrSpace c \<longleftrightarrow> (of_char c :: nat) \<le> 32"

definition isTabOrNewline :: "char \<Rightarrow> bool" where
  "isTabOrNewline c \<longleftrightarrow> c = CHR 0x09 \<or> c = CHR 0x0A \<or> c = CHR 0x0D"

definition digitValue :: "char \<Rightarrow> nat" where
  "digitValue c = of_char c - 48"

definition decimal :: "string \<Rightarrow> nat" where
  "decimal ds = foldl (\<lambda>a c. 10 * a + digitValue c) 0 ds"

fun showNat :: "nat \<Rightarrow> string" where
  "showNat n =
     (if n < 10 then [''0123456789'' ! n]
      else showNat (n div 10) @ [''0123456789'' ! (n mod 10)])"

declare showNat.simps [simp del]

text \<open>The test \<^verbatim>\<open>/^https?:\/\//i.test(inputUrl)\<close> of \<^verbatim>\<open>parseUrl\<close>.\<close>

definition startsWithIgnoreCase :: "string \<Rightarrow> string \<Rightarrow> bool" where
  "startsWithIgnoreCase pat s \<longleftrightarrow> map asciiLower (take (length pat) s) = pat"

definition hasHttpScheme :: "string \<Rightarrow> bool" where
  "hasHttpScheme s \<longleftrightarrow>
     startsWithIgnoreCase ''http://'' s \<or> startsWithIgnoreCase ''https://'' s"

section \<open>The URL class of the platform\<close>

text \<open>
  \<^verbatim>\<open>parseUrl\<close> builds on the platform's \<^verbatim>\<open>URL\<close> class (URL Standard). The
  part of the basic URL parser that \<^verbatim>\<open>parseUrl\<close> can reach is written out: the
  scheme, the authority with its credentials, the host buffer and the port. Two parts
  are not: the host parser (percent-decoding, IDNA, IPv4 and IPv6 literals), which is a
  parameter \<open>hp\<close> of every function below (\<open>None\<close> is failure), and the path, query
  and fragment, which never fail and are carried unparsed in \<open>remainder\<close>.
  Schemes other than http and https take other parser states; they are answered with
  \<open>UnmodelledScheme\<close>, which \<^verbatim>\<open>parseUrl\<close> is shown never to meet.
\<close>

datatype error =
    InvalidURL              \<comment> \<open>TypeError: Invalid URL\<close>
  | UnmodelledScheme
  | RequestError string     \<comment> \<open>the 'error' event of the request, with its message\<close>

record url =
  scheme :: string
  host :: string
  portNumber :: "nat option"
  remainder :: string

definition protocol :: "url \<Rightarrow> string" where
  "protocol u = scheme u @ '':''"

definition port :: "url \<Rightarrow> string" where
  "port u = (case portNumber u of None \<Rightarrow> [] | Some n \<Rightarrow> showNat n)"

definition defaultPort :: "string \<Rightarrow> nat option" where
  "defaultPort sch =
     (if sch = ''http'' then Some 80 else if sch = ''https'' then Some 443 else None)"

definition stripC0 :: "string \<Rightarrow> string" where
  "stripC0 s = rev (dropWhile isC0ControlOrSpace (rev (dropWhile isC0ControlOrSpace s)))"

definition prepareInput :: "string \<Rightarrow> string" where
  "prepareInput s = filter (\<lambda>c. \<not> isTabOrNewline c) (stripC0 s)"

definition isSchemeChar :: "char \<Rightarrow> bool" where
  "isSchemeChar c \<longleftrightarrow>
     isAsciiAlpha c \<or> isAsciiDigit c \<or> c = CHR ''+'' \<or> c = CHR ''-'' \<or> c = CHR ''.''"

text \<open>Scheme start state and scheme state: the lowercased scheme and what follows the colon.\<close>

definition parseScheme :: "string \<Rightarrow> (string \<times> string) option" where
  "parseScheme s =
     (case s of
        [] \<Rightarrow> None
      | c # _ \<Rightarrow>
          if \<not> isAsciiAlpha c then None
          else (case dropWhile isSchemeChar s of
                  [] \<Rightarrow> None
                | d # rest \<Rightarrow>
                    if d = CHR '':'' then Some (map asciiLower (takeWhile isSchemeChar s), rest)
                    else None))"

definition isSlash :: "char \<Rightarrow> bool" where
  "isSlash c \<longleftrightarrow> c = CHR ''/'' \<or> c = CHR 0x5C"

definition isAuthorityEnd :: "char \<Rightarrow> bool" where
  "isAuthorityEnd c \<longleftrightarrow> c = CHR ''/'' \<or> c = CHR ''?'' \<or> c = CHR ''#'' \<or> c = CHR 0x5C"

text \<open>
  Special authority slashes and ignore-slashes states skip every slash and backslash;
  the authority state then reads up to the next \<open>/\<close>, \<open>?\<close>, \<open>#\<close>, backslash or the end.
\<close>

definition splitAuthority :: "string \<Rightarrow> string \<times> string" where
  "splitAuthority rest =
     (let r = dropWhile isSlash rest
      in (takeWhile (\<lambda>c. \<not> isAuthorityEnd c) r, dropWhile (\<lambda>c. \<not> isAuthorityEnd c) r))"

text \<open>
  Authority state: everything up to the last \<open>@\<close> is credentials (which
  \<^verbatim>\<open>platform.ts\<close> never reads); the flag says whether an \<open>@\<close> was seen.
\<close>

definition credentials :: "string \<Rightarrow> bool \<times> string" where
  "credentials auth =
     (CHR ''@'' \<in> set auth, rev (takeWhile (\<lambda>c. c \<noteq> CHR ''@'') (rev auth)))"

text \<open>
  Host state: the buffer up to the first colon outside square brackets, and the text
  after that colon when there is one.
\<close>

fun scanHost :: "bool \<Rightarrow> string \<Rightarrow> string \<Rightarrow> string \<times> string option" where
  "scanHost inside buf [] = (buf, None)"
| "scanHost inside buf (c # cs) =
     (if c = CHR '':'' \<and> \<not> inside then (buf, Some cs)
      else scanHost (if c = CHR ''['' then True else if c = CHR '']'' then False else inside)
             (buf @ [c]) cs)"

text \<open>
  Port state, on the text between the colon and the end of the authority: \<open>None\<close> is
  failure, \<open>Some None\<close> the null port (no digits, or the scheme's default port).
\<close>

definition parsePort :: "string \<Rightarrow> string \<Rightarrow> nat option option" where
  "parsePort sch p =
     (if \<not> list_all isAsciiDigit p then None
      else if p = [] then Some None
      else if decimal p > 65535 then None
      else if defaultPort sch = Some (decimal p) then Some None
      else Some (Some (decimal p)))"

text \<open>
  From the authority state to the port state, for the scheme found and the input after
  its colon.
\<close>

definition parseAuthority :: "(string \<Rightarrow> string option) \<Rightarrow> string \<Rightarrow> string \<Rightarrow> error + url" where
  "parseAuthority hp sch rest =
     (case splitAuthority rest of
        (auth, tail) \<Rightarrow>
          (case credentials auth of
             (atSignSeen, hostport) \<Rightarrow>
               if atSignSeen \<and> hostport = [] then Inl InvalidURL
               else
                 (case scanHost False [] hostport of
                    (buffer, portText) \<Rightarrow>
                      if buffer = [] then Inl InvalidURL
                      else
                        (case hp buffer of
                           None \<Rightarrow> Inl InvalidURL
                         | Some h \<Rightarrow>
                             (case portText of
                                None \<Rightarrow>
                                  Inr \<lparr>scheme = sch, host = h, portNumber = None,
                                       remainder = tail\<rparr>
                              | Some p \<Rightarrow>
                                  (case parsePort sch p of
                                     None \<Rightarrow> Inl InvalidURL
                                   | Some pn \<Rightarrow>
                                       Inr \<lparr>scheme = sch, host = h, portNumber = pn,
                                            remainder = tail\<rparr>))))))"

text \<open>\<^verbatim>\<open>new URL(input)\<close>, without base.\<close>

definition URL_new :: "(string \<Rightarrow> string option) \<Rightarrow> string \<Rightarrow> error + url" where
  "URL_new hp input =
     (case parseScheme (prepareInput input) of
        None \<Rightarrow> Inl InvalidURL
      | Some (sch, rest) \<Rightarrow>
          if sch \<noteq> ''http'' \<and> sch \<noteq> ''https'' then Inl UnmodelledScheme
          else parseAuthority hp sch rest)"

text \<open>
  The \<^verbatim>\<open>port\<close> setter: nothing happens on a URL without host; the empty string
  clears the port; otherwise the port state runs on the value with a state override,
  so it reads the leading digits, and a port equal to the scheme's default is stored
  as null, as in the constructor (the port state of the URL Standard sets the port to
  null when it is the default port of the scheme, with or without state override). The
  getter then gives the empty string: assigning the default port of the protocol
  leaves \<^verbatim>\<open>url.port\<close> empty.
\<close>

definition set_port :: "url \<Rightarrow> string \<Rightarrow> url" where
  "set_port u v =
     (if host u = [] then u
      else if v = [] then u\<lparr>portNumber := None\<rparr>
      else
        (let ds = takeWhile isAsciiDigit (filter (\<lambda>c. \<not> isTabOrNewline c) v)
         in if ds = [] then u
            else if decimal ds > 65535 then u
            else if defaultPort (scheme u) = Some (decimal ds) then u\<lparr>portNumber := None\<rparr>
            else u\<lparr>portNumber := Some (decimal ds)\<rparr>))"

section \<open>parseUrl\<close>

definition parseUrl :: "(string \<Rightarrow> string option) \<Rightarrow> string \<Rightarrow> error + url" where
  "parseUrl hp inputUrl =
     (case (if \<not> hasHttpScheme inputUrl then URL_new hp (''http://'' @ inputUrl)
            else URL_new hp inputUrl) of
        Inl e \<Rightarrow> Inl e
      | Inr u \<Rightarrow>
          Inr (if port u = [] then
                 (if protocol u = ''http:'' then set_port u ''80''
                  else if protocol u = ''https:'' then set_port u ''443''
                  else u)
               else u))"

section \<open>getRouterStatus\<close>

text \<open>
  The network is a parameter \<open>net\<close>: for the module chosen and the request options it
  gives the first event of the request, a response with its \<^verbatim>\<open>statusCode\<close>
  (possibly undefined) or an \<^verbatim>\<open>'error'\<close> event. The promise is the sum type:
  \<open>Inr\<close> resolves and \<open>Inl\<close> rejects; a throw of \<^verbatim>\<open>parseUrl\<close> inside the
  executor rejects. A request that never has an event leaves the promise pending and no
  code of the repository runs; that case is not in the model. Where the code sends
  \<^verbatim>\<open>url.pathname\<close> (the normalised path alone, \<open>/\<close> when there is none), the
  request options carry the unparsed remainder of the address, with query and fragment;
  no statement below is about the path. Debug logging is not modelled.
\<close>

datatype getModule = httpGet | httpsGet

record requestOptions =
  opt_hostname :: string
  opt_port :: string
  opt_path :: string
  rejectUnauthorized :: bool

datatype netEvent = Response "int option" | ErrorEvent string

type_synonym network = "getModule \<Rightarrow> requestOptions \<Rightarrow> netEvent"

definition getModuleFor :: "url \<Rightarrow> getModule" where
  "getModuleFor u = (if protocol u = ''https:'' then httpsGet else httpGet)"

definition requestOptionsFor :: "url \<Rightarrow> requestOptions" where
  "requestOptionsFor u =
     \<lparr>opt_hostname = host u, opt_port = port u, opt_path = remainder u,
      rejectUnauthorized = False\<rparr>"

definition onResponse :: "int option \<Rightarrow> bool" where
  "onResponse statusCode =
     (case statusCode of
        None \<Rightarrow> True
      | Some c \<Rightarrow> if c \<noteq> 0 \<and> c \<ge> 400 \<and> c < 600 then False else True)"

text \<open>
  The requests sent so far are kept in a log, so that the number of requests a call
  makes can be stated: \<^verbatim>\<open>getRouterStatus\<close> sends one when the address parses
  and none when it does not.
\<close>

type_synonym wire = "(getModule \<times> requestOptions) list"

definition getRouterStatus ::
  "(string \<Rightarrow> string option) \<Rightarrow> network \<Rightarrow> string \<Rightarrow> wire \<Rightarrow> (error + bool) \<times> wire" where
  "getRouterStatus hp net inputUrl w =
     (case parseUrl hp inputUrl of
        Inl e \<Rightarrow> (Inl e, w)
      | Inr u \<Rightarrow>
          (case net (getModuleFor u) (requestOptionsFor u) of
             Response statusCode \<Rightarrow>
               (Inr (onResponse statusCode), w @ [(getModuleFor u, requestOptionsFor u)])
           | ErrorEvent msg \<Rightarrow>
               (Inl (RequestError msg), w @ [(getModuleFor u, requestOptionsFor u)])))"

section \<open>Configuration and polling interval\<close>

record routerConfig =
  name :: string
  homepageUrl :: string
  manufacturer :: "string option"
  model :: "string option"
  serial :: "string option"
  firmwareRevision :: "string option"
  pollingInterval :: "string option"

text \<open>
  \<^verbatim>\<open>parseInt(s, 10)\<close> of ECMAScript: leading white space is dropped, then an
  optional sign, then the longest run of decimal digits is read and what follows it is
  ignored; no digit gives NaN (\<open>None\<close>). The value is an \<^typ>\<open>int\<close>, which is the
  Number that JavaScript computes up to \<open>2^53\<close>.
\<close>

definition isStrWhiteSpace :: "char \<Rightarrow> bool" where
  "isStrWhiteSpace c \<longleftrightarrow>
     c = CHR 0x09 \<or> c = CHR 0x0A \<or> c = CHR 0x0B \<or> c = CHR 0x0C \<or> c = CHR 0x0D \<or>
     c = CHR 0x20 \<or> c = CHR 0xA0"

definition parseInt10 :: "string \<Rightarrow> int option" where
  "parseInt10 str =
     (let S = dropWhile isStrWhiteSpace str;
          sign = (if S \<noteq> [] \<and> hd S = CHR ''-'' then - 1 else 1);
          S' = (if S \<noteq> [] \<and> (hd S = CHR ''+'' \<or> hd S = CHR ''-'') then tl S else S);
          Z = takeWhile isAsciiDigit S'
      in if Z = [] then None else Some (sign * int (decimal Z)))"

definition effectivePollingInterval :: "routerConfig \<Rightarrow> int" where
  "effectivePollingInterval router =
     (case parseInt10 (case pollingInterval router of None \<Rightarrow> ''NaN'' | Some s \<Rightarrow> s) of
        None \<Rightarrow> 5000
      | Some parsedPollingInterval \<Rightarrow> parsedPollingInterval)"

section \<open>The status handlers\<close>

datatype satelliteStatus = CONNECTED | NOT_CONNECTED

text \<open>
  The value last pushed to the WiFiSatelliteStatus characteristic of each accessory,
  by the accessory's UUID.
\<close>

type_synonym homekit = "string \<rightharpoonup> satelliteStatus"

text \<open>The \<^verbatim>\<open>onGet\<close> handler of a router; \<open>Inl\<close> would be a rejected promise.\<close>

definition onGet ::
  "(string \<Rightarrow> string option) \<Rightarrow> network \<Rightarrow> routerConfig \<Rightarrow> wire \<Rightarrow>
     (error + satelliteStatus) \<times> wire" where
  "onGet hp net router w =
     (case getRouterStatus hp net (homepageUrl router) w of
        (Inr status, w') \<Rightarrow> (Inr (if status then CONNECTED else NOT_CONNECTED), w')
      | (Inl e, w') \<Rightarrow> (Inr NOT_CONNECTED, w'))"

text \<open>
  The callback given to \<^verbatim>\<open>setInterval\<close>, for the router and the UUID of the
  accessory whose service it updates. The state is the pushed values and the request
  log.
\<close>

definition tick ::
  "(string \<Rightarrow> string option) \<Rightarrow> network \<Rightarrow> string \<Rightarrow> routerConfig \<Rightarrow> homekit \<times> wire \<Rightarrow>
     error + homekit \<times> wire" where
  "tick hp net uuid router st =
     (case getRouterStatus hp net (homepageUrl router) (snd st) of
        (Inr status, w') \<Rightarrow>
          Inr ((fst st)(uuid \<mapsto> (if status then CONNECTED else NOT_CONNECTED)), w')
      | (Inl e, w') \<Rightarrow> Inr (fst st, w'))"

text \<open>
  The repeating timer over the network as it is at each period. A callback whose
  promise rejected would be an unhandled rejection, which ends the process: the
  remaining periods do not fire. The result counts the periods that fired.
\<close>

fun runTimer ::
  "(string \<Rightarrow> string option) \<Rightarrow> string \<Rightarrow> routerConfig \<Rightarrow> network list \<Rightarrow> nat \<times> homekit \<times> wire \<Rightarrow>
     error + nat \<times> homekit \<times> wire" where
  "runTimer hp uuid router [] st = Inr st"
| "runTimer hp uuid router (net # nets) (fired, st) =
     (case tick hp net uuid router st of
        Inl e \<Rightarrow> Inl e
      | Inr st' \<Rightarrow> runTimer hp uuid router nets (Suc fired, st'))"

section \<open>discoverDevices\<close>

text \<open>
  An accessory with what \<^verbatim>\<open>discoverDevices\<close> reads and writes: its UUID and
  display name, \<^verbatim>\<open>context.device\<close>, the four characteristics of the
  AccessoryInformation service and the Name of the WiFiSatellite service when the
  accessory has one.
\<close>

record accessory =
  UUID :: string
  displayName :: string
  context_device :: "routerConfig option"
  Manufacturer :: string
  Model :: string
  SerialNumber :: string
  FirmwareRevision :: string
  wiFiSatelliteName :: "string option"

text \<open>
  The calls that \<^verbatim>\<open>discoverDevices\<close> makes to the framework and to the timer:
  the handler and the timer carry the UUID of the accessory whose service they use and
  the router they close over. The plugin and platform names handed to the framework
  with each list are constants and are left out.
\<close>

datatype call =
    OnGet string routerConfig
  | SetInterval string routerConfig int
  | RegisterPlatformAccessories "accessory list"
  | UnregisterPlatformAccessories "accessory list"

record platform =
  accessories :: "accessory list"
  calls :: "call list"

definition identityKey :: "routerConfig \<Rightarrow> string" where
  "identityKey router = ''homepageUrl_'' @ homepageUrl router"

text \<open>
  \<^verbatim>\<open>new this.api.platformAccessory(name, uuid)\<close>; the characteristics of a new
  accessory are overwritten before anything reads them.
\<close>

definition platformAccessory :: "string \<Rightarrow> string \<Rightarrow> accessory" where
  "platformAccessory nm uuid =
     \<lparr>UUID = uuid, displayName = nm, context_device = None, Manufacturer = [], Model = [],
      SerialNumber = [], FirmwareRevision = [], wiFiSatelliteName = None\<rparr>"

fun findIndex :: "('a \<Rightarrow> bool) \<Rightarrow> 'a list \<Rightarrow> nat option" where
  "findIndex P [] = None"
| "findIndex P (x # xs) = (if P x then Some 0 else map_option Suc (findIndex P xs))"

text \<open>What one iteration writes to the accessory it works on.\<close>

definition applyRouter :: "routerConfig \<Rightarrow> accessory \<Rightarrow> accessory" where
  "applyRouter router a =
     a\<lparr>context_device := Some router,
       Manufacturer := (case manufacturer router of None \<Rightarrow> ''Default-Manufacturer'' | Some v \<Rightarrow> v),
       Model := (case model router of None \<Rightarrow> ''Default-Model'' | Some v \<Rightarrow> v),
       SerialNumber := (case serial router of None \<Rightarrow> ''Default-Serial'' | Some v \<Rightarrow> v),
       FirmwareRevision := (case firmwareRevision router of None \<Rightarrow> ''1.0.0'' | Some v \<Rightarrow> v),
       wiFiSatelliteName := Some (name router)\<rparr>"

text \<open>
  The body of the first loop. \<open>generate\<close> is \<^verbatim>\<open>this.api.hap.uuid.generate\<close>.
  An accessory found in \<^verbatim>\<open>this.accessories\<close> is changed in place; a new one
  is registered and not added to \<^verbatim>\<open>this.accessories\<close>.
\<close>

definition discoverRouter :: "(string \<Rightarrow> string) \<Rightarrow> platform \<Rightarrow> routerConfig \<Rightarrow> platform" where
  "discoverRouter generate p router =
     (let uuid = generate (identityKey router)
      in case findIndex (\<lambda>a. UUID a = uuid) (accessories p) of
           Some i \<Rightarrow>
             p\<lparr>accessories := (accessories p)[i := applyRouter router (accessories p ! i)],
               calls := calls p @
                 [OnGet uuid router, SetInterval uuid router (effectivePollingInterval router)]\<rparr>
         | None \<Rightarrow>
             p\<lparr>calls := calls p @
                 [OnGet uuid router, SetInterval uuid router (effectivePollingInterval router),
                  RegisterPlatformAccessories
                    [applyRouter router (platformAccessory (name router) uuid)]]\<rparr>)"

text \<open>The body of the second loop.\<close>

definition removeMissing ::
  "(string \<Rightarrow> string) \<Rightarrow> routerConfig list \<Rightarrow> platform \<Rightarrow> accessory \<Rightarrow> platform" where
  "removeMissing generate routers p a =
     (if \<not> list_ex (\<lambda>router. generate (identityKey router) = UUID a) routers
      then p\<lparr>calls := calls p @ [UnregisterPlatformAccessories [a]]\<rparr>
      else p)"

definition discoverDevices ::
  "(string \<Rightarrow> string) \<Rightarrow> routerConfig list option \<Rightarrow> platform \<Rightarrow> platform" where
  "discoverDevices generate config_routers p =
     (let routers = (case config_routers of None \<Rightarrow> [] | Some rs \<Rightarrow> rs);
          p1 = foldl (discoverRouter generate) p routers
      in foldl (removeMissing generate routers) p1 (accessories p1))"

text \<open>The accessories handed to the framework, and the timers started, in call order.\<close>

fun registered :: "call list \<Rightarrow> accessory list list" where
  "registered [] = []"
| "registered (RegisterPlatformAccessories as # cs) = as # registered cs"
| "registered (c # cs) = registered cs"

fun unregistered :: "call list \<Rightarrow> accessory list list" where
  "unregistered [] = []"
| "unregistered (UnregisterPlatformAccessories as # cs) = as # unregistered cs"
| "unregistered (c # cs) = unregistered cs"

fun timers :: "call list \<Rightarrow> (string \<times> routerConfig \<times> int) list" where
  "timers [] = []"
| "timers (SetInterval uuid router period # cs) = (uuid, router, period) # timers cs"
| "timers (c # cs) = timers cs"

text \<open>
  Reconciliation as the specification words it, a difference over identities: the
  configured routers whose identity is known are kept, the others added, and the known
  accessories whose identity no configured router has are removed.
\<close>

definition spec_keep :: "(string \<Rightarrow> string) \<Rightarrow> routerConfig list \<Rightarrow> accessory list \<Rightarrow> routerConfig list" where
  "spec_keep generate routers known =
     filter (\<lambda>router. generate (identityKey router) \<in> UUID ` set known) routers"

definition spec_add :: "(string \<Rightarrow> string) \<Rightarrow> routerConfig list \<Rightarrow> accessory list \<Rightarrow> routerConfig list" where
  "spec_add generate routers known =
     filter (\<lambda>router. generate (identityKey router) \<notin> UUID ` set known) routers"

definition spec_remove :: "(string \<Rightarrow> string) \<Rightarrow> routerConfig list \<Rightarrow> accessory list \<Rightarrow> accessory list" where
  "spec_remove generate routers known =
     filter (\<lambda>a. UUID a \<notin> (\<lambda>router. generate (identityKey router)) ` set routers) known"

text \<open>The accessory made for a router that has none.\<close>

definition freshAccessory :: "(string \<Rightarrow> string) \<Rightarrow> routerConfig \<Rightarrow> accessory" where
  "freshAccessory generate router =
     applyRouter router (platformAccessory (name router) (generate (identityKey router)))"

text \<open>
  The calls of one iteration of the first loop, by whether the router's identity is
  among the known accessories.
\<close>

definition routerCalls :: "(string \<Rightarrow> string) \<Rightarrow> accessory list \<Rightarrow> routerConfig \<Rightarrow> call list" where
  "routerCalls generate known router =
     [OnGet (generate (identityKey router)) router,
      SetInterval (generate (identityKey router)) router (effectivePollingInterval router)] @
     (if generate (identityKey router) \<in> UUID ` set known then []
      else [RegisterPlatformAccessories [freshAccessory generate router]])"


text \<open>
  For stating what \<^verbatim>\<open>parseUrl\<close> does with an address: the scheme it will find
  and the text after \<open>scheme://\<close>; that text as the parser sees it, without trailing
  C0 controls and spaces and without tabs and newlines; the host buffer and the port text
  of the address; and the last step of \<^verbatim>\<open>parseUrl\<close>, which sets the port.
\<close>

definition isAsciiUpperAlpha :: "char \<Rightarrow> bool" where
  "isAsciiUpperAlpha c \<longleftrightarrow> c \<in> set ''ABCDEFGHIJKLMNOPQRSTUVWXYZ''"

definition isAsciiLowerAlpha :: "char \<Rightarrow> bool" where
  "isAsciiLowerAlpha c \<longleftrightarrow> c \<in> set ''abcdefghijklmnopqrstuvwxyz''"

text \<open>
  The characters that stay in the host buffer: no delimiter of the authority, and no
  tab or newline, which the parser removes.
\<close>

definition isHostBufferChar :: "char \<Rightarrow> bool" where
  "isHostBufferChar c \<longleftrightarrow>
     c \<noteq> CHR '':'' \<and> c \<noteq> CHR ''@'' \<and> c \<noteq> CHR ''['' \<and> c \<noteq> CHR '']'' \<and>
     \<not> isAuthorityEnd c \<and> \<not> isTabOrNewline c"

definition schemeAndRest :: "string \<Rightarrow> string \<times> string" where
  "schemeAndRest inputUrl =
     (if startsWithIgnoreCase ''http://'' inputUrl then (''http'', drop 7 inputUrl)
      else if startsWithIgnoreCase ''https://'' inputUrl then (''https'', drop 8 inputUrl)
      else (''http'', inputUrl))"

definition trimEnd :: "string \<Rightarrow> string" where
  "trimEnd s =
     filter (\<lambda>c. \<not> isTabOrNewline c) (rev (dropWhile isC0ControlOrSpace (rev s)))"

definition hostAndPort :: "string \<Rightarrow> string \<times> string option" where
  "hostAndPort inputUrl =
     scanHost False []
       (snd (credentials (fst (splitAuthority (trimEnd (snd (schemeAndRest inputUrl)))))))"

definition setDefaultPort :: "url \<Rightarrow> url" where
  "setDefaultPort u =
     (if port u = [] then
        (if protocol u = ''http:'' then set_port u ''80''
         else if protocol u = ''https:'' then set_port u ''443''
         else u)
      else u)"

section \<open>Sample environment\<close>

text \<open>
  For evaluating the functions at concrete inputs: a host parser for plain ASCII names
  (letters, digits, dot and hyphen, which the host parser lowercases), and a network
  that answers every request with the same event.
\<close>

definition asciiHost :: "string \<Rightarrow> string option" where
  "asciiHost s =
     (if s \<noteq> [] \<and> list_all (\<lambda>c. isAsciiAlpha c \<or> isAsciiDigit c \<or> c = CHR ''.'' \<or> c = CHR ''-'') s
      then Some (map asciiLower s) else None)"

definition always :: "netEvent \<Rightarrow> network" where
  "always e m opts = e"

text \<open>An identity generator for the examples: the seed itself.\<close>

definition seedUUID :: "string \<Rightarrow> string" where
  "seedUUID seed = seed"

definition sampleRouter :: "string \<Rightarrow> string \<Rightarrow> string option \<Rightarrow> routerConfig" where
  "sampleRouter nm address interval =
     \<lparr>name = nm, homepageUrl = address, manufacturer = None, model = None, serial = None,
      firmwareRevision = None, pollingInterval = interval\<rparr>"

section \<open>Evaluation at concrete inputs\<close>

lemmas url_eval = parseUrl_def URL_new_def parseAuthority_def hasHttpScheme_def
  startsWithIgnoreCase_def asciiLower_def prepareInput_def stripC0_def isC0ControlOrSpace_def isTabOrNewline_def parseScheme_def
  isAsciiAlpha_def isAsciiDigit_def isSchemeChar_def splitAuthority_def isSlash_def
  isAuthorityEnd_def credentials_def parsePort_def decimal_def digitValue_def defaultPort_def
  set_port_def port_def protocol_def asciiHost_def showNat.simps

lemma sample_parse:
  "parseUrl asciiHost ''192.168.1.1'' =
     Inr \<lparr>scheme = ''http'', host = ''192.168.1.1'', portNumber = None, remainder = []\<rparr>"
  by (simp add: url_eval)

section \<open>The prober\<close>

text \<open>
  C3. When the address parses and the request is answered, a status code from 100 to
  399 resolves the probe with true (Connected) and a status code from 400 to 599 with
  false (NotConnected); when the request ends in an error event instead, the probe
  rejects with that error.
\<close>

theorem getRouterStatus_by_status_code:
  assumes "parseUrl hp inputUrl = Inr u"
  shows "(net (getModuleFor u) (requestOptionsFor u) = Response (Some c) \<and> 100 \<le> c \<and> c \<le> 399
            \<longrightarrow> fst (getRouterStatus hp net inputUrl w) = Inr True)
       \<and> (net (getModuleFor u) (requestOptionsFor u) = Response (Some c) \<and> 400 \<le> c \<and> c \<le> 599
            \<longrightarrow> fst (getRouterStatus hp net inputUrl w) = Inr False)
       \<and> (net (getModuleFor u) (requestOptionsFor u) = ErrorEvent msg
            \<longrightarrow> fst (getRouterStatus hp net inputUrl w) = Inl (RequestError msg))"
  using assms by (simp add: getRouterStatus_def onResponse_def)

theorem getRouterStatus_by_status_code_witness:
  "fst (getRouterStatus asciiHost (always (Response (Some 301))) ''192.168.1.1'' []) = Inr True
   \<and> fst (getRouterStatus asciiHost (always (Response (Some 503))) ''192.168.1.1'' []) = Inr False
   \<and> fst (getRouterStatus asciiHost (always (ErrorEvent ''ECONNREFUSED'')) ''192.168.1.1'' [])
       = Inl (RequestError ''ECONNREFUSED'')"
  using getRouterStatus_by_status_code [OF sample_parse, where net = "always (Response (Some 301))" and c = 301 and w = "[]"]
    getRouterStatus_by_status_code [OF sample_parse, where net = "always (Response (Some 503))" and c = 503 and w = "[]"]
    getRouterStatus_by_status_code [OF sample_parse, where net = "always (ErrorEvent ''ECONNREFUSED'')" and msg = "''ECONNREFUSED''" and w = "[]"]
  by (simp add: always_def)

text \<open>
  C10. A response without status code, or with one below 400 or from 600 on, resolves
  the probe with true; the probe resolves with false exactly when the status code is
  there and lies from 400 to 599.
\<close>

theorem getRouterStatus_not_connected_iff:
  assumes "parseUrl hp inputUrl = Inr u"
    and "net (getModuleFor u) (requestOptionsFor u) = Response statusCode"
  shows "(statusCode = None \<or> (\<exists>c. statusCode = Some c \<and> (c < 400 \<or> 600 \<le> c))
            \<longrightarrow> fst (getRouterStatus hp net inputUrl w) = Inr True)
       \<and> (fst (getRouterStatus hp net inputUrl w) = Inr False
            \<longleftrightarrow> (\<exists>c. statusCode = Some c \<and> 400 \<le> c \<and> c \<le> 599))"
  using assms by (auto simp: getRouterStatus_def onResponse_def split: option.splits)

theorem getRouterStatus_not_connected_iff_witness:
  "fst (getRouterStatus asciiHost (always (Response None)) ''192.168.1.1'' []) = Inr True
   \<and> fst (getRouterStatus asciiHost (always (Response (Some 99))) ''192.168.1.1'' []) = Inr True
   \<and> fst (getRouterStatus asciiHost (always (Response (Some 600))) ''192.168.1.1'' []) = Inr True
   \<and> fst (getRouterStatus asciiHost (always (Response (Some 599))) ''192.168.1.1'' []) = Inr False"
  using getRouterStatus_not_connected_iff [OF sample_parse, where net = "always (Response None)" and statusCode = None and w = "[]"]
    getRouterStatus_not_connected_iff [OF sample_parse, where net = "always (Response (Some 99))" and statusCode = "Some 99" and w = "[]"]
    getRouterStatus_not_connected_iff [OF sample_parse, where net = "always (Response (Some 600))" and statusCode = "Some 600" and w = "[]"]
    getRouterStatus_not_connected_iff [OF sample_parse, where net = "always (Response (Some 599))" and statusCode = "Some 599" and w = "[]"]
  by (simp add: always_def)

section \<open>The handlers\<close>

lemma getRouterStatus_requests:
  "snd (getRouterStatus hp net inputUrl w) =
     (case parseUrl hp inputUrl of Inl e \<Rightarrow> w | Inr u \<Rightarrow> w @ [(getModuleFor u, requestOptionsFor u)])"
  by (simp add: getRouterStatus_def split: sum.splits netEvent.splits)

text \<open>
  C9. The on-demand handler makes one probe, with at most one request, reads nothing
  of the timers' state, and always resolves: with Connected exactly when the probe
  resolved true, and with NotConnected when the probe resolved false or failed with
  whatever error. It never rejects.
\<close>

theorem onGet_never_rejects:
  "(fst (onGet hp net router w) = Inr CONNECTED \<or> fst (onGet hp net router w) = Inr NOT_CONNECTED)
   \<and> (fst (onGet hp net router w) = Inr CONNECTED
        \<longleftrightarrow> fst (getRouterStatus hp net (homepageUrl router) w) = Inr True)
   \<and> (\<forall>e. fst (getRouterStatus hp net (homepageUrl router) w) = Inl e
        \<longrightarrow> fst (onGet hp net router w) = Inr NOT_CONNECTED)
   \<and> snd (onGet hp net router w) = snd (getRouterStatus hp net (homepageUrl router) w)
   \<and> length (snd (onGet hp net router w)) \<le> Suc (length w)"
proof -
  obtain r w' where g: "getRouterStatus hp net (homepageUrl router) w = (r, w')"
    by (cases "getRouterStatus hp net (homepageUrl router) w")
  have "length (snd (getRouterStatus hp net (homepageUrl router) w)) \<le> Suc (length w)"
    by (simp add: getRouterStatus_requests split: sum.splits)
  with g show ?thesis
    by (cases r) (auto simp: onGet_def)
qed

theorem onGet_never_rejects_witness:
  "fst (getRouterStatus asciiHost (always (ErrorEvent ''ETIMEDOUT'')) ''192.168.1.1'' [])
     = Inl (RequestError ''ETIMEDOUT'')
   \<and> fst (onGet asciiHost (always (ErrorEvent ''ETIMEDOUT''))
            (sampleRouter ''Router'' ''192.168.1.1'' None) []) = Inr NOT_CONNECTED"
proof -
  have h: "fst (getRouterStatus asciiHost (always (ErrorEvent ''ETIMEDOUT''))
      (homepageUrl (sampleRouter ''Router'' ''192.168.1.1'' None)) []) = Inl (RequestError ''ETIMEDOUT'')"
    by (simp add: getRouterStatus_def sample_parse sampleRouter_def always_def)
  show ?thesis
    using h onGet_never_rejects [of asciiHost "always (ErrorEvent ''ETIMEDOUT'')"
        "sampleRouter ''Router'' ''192.168.1.1'' None" "[]"]
    by (simp add: sampleRouter_def)
qed

lemma tick_total: "\<exists>st'. tick hp net uuid router st = Inr st'"
  by (simp add: tick_def split: prod.splits sum.splits)

lemma tick_rejected_probe:
  "fst (getRouterStatus hp net (homepageUrl router) (snd st)) = Inl e \<Longrightarrow>
   \<exists>w'. tick hp net uuid router st = Inr (fst st, w')"
  by (auto simp: tick_def split: prod.splits sum.splits)

lemma runTimer_fires_every_period:
  "\<exists>hk w. runTimer hp uuid router nets (fired, st) = Inr (fired + length nets, hk, w)"
proof (induction nets arbitrary: fired st)
  case Nil
  show ?case by (cases st) simp
next
  case (Cons net nets)
  obtain st' where "tick hp net uuid router st = Inr st'"
    using tick_total by blast
  with Cons.IH [of "Suc fired" st'] show ?case by simp
qed

text \<open>
  C1. The timer callback evaluated where the claim fails: a first period answered
  with 200 pushes Connected; in the second period the request ends in an error, the
  callback catches it and pushes nothing, so the accessory still reports Connected.
  Both periods fired.
\<close>

theorem tick_error_leaves_status:
  "map_sum id (\<lambda>(fired, hk, w). (fired, hk ''uuid-1''))
     (runTimer asciiHost ''uuid-1'' (sampleRouter ''Router'' ''192.168.1.1'' None)
        [always (Response (Some 200)), always (ErrorEvent ''ECONNREFUSED'')]
        (0, Map.empty, []))
   = Inr (2, Some CONNECTED)"
  by (simp add: tick_def getRouterStatus_def sample_parse sampleRouter_def always_def onResponse_def)

section \<open>Reading the polling interval\<close>














section \<open>Reconciliation\<close>

lemma findIndex_None_iff: "findIndex P xs = None \<longleftrightarrow> (\<forall>x\<in>set xs. \<not> P x)"
  by (induction xs) auto

lemma findIndex_Some:
  "findIndex P xs = Some i \<Longrightarrow> i < length xs \<and> P (xs ! i)"
  by (induction xs arbitrary: i) (auto split: if_splits)

lemma findIndex_map: "findIndex P (map f xs) = findIndex (\<lambda>x. P (f x)) xs"
  by (induction xs) auto

lemma findIndex_UUID_cong:
  "map UUID xs = map UUID ys \<Longrightarrow>
   findIndex (\<lambda>a. UUID a = u) xs = findIndex (\<lambda>a. UUID a = u) ys"
  using findIndex_map [of "\<lambda>v. v = u" UUID xs] findIndex_map [of "\<lambda>v. v = u" UUID ys]
  by simp

lemma UUID_applyRouter [simp]: "UUID (applyRouter router a) = UUID a"
  by (simp add: applyRouter_def)

lemma applyRouter_twice [simp]:
  "applyRouter router (applyRouter router' a) = applyRouter router a"
  by (simp add: applyRouter_def)

lemma map_UUID_update:
  "i < length xs \<Longrightarrow> map UUID (xs[i := applyRouter router (xs ! i)]) = map UUID xs"
  by (simp add: map_update list_update_same_conv)

lemma discoverRouter_UUIDs:
  "map UUID (accessories (discoverRouter generate p router)) = map UUID (accessories p)"
  by (auto simp: discoverRouter_def Let_def map_UUID_update split: option.splits
      dest: findIndex_Some)

lemma discoverRouter_calls:
  "calls (discoverRouter generate p router) = calls p @ routerCalls generate (accessories p) router"
proof (cases "findIndex (\<lambda>a. UUID a = generate (identityKey router)) (accessories p)")
  case None
  then have "generate (identityKey router) \<notin> UUID ` set (accessories p)"
    by (auto simp: findIndex_None_iff)
  with None show ?thesis
    by (simp add: discoverRouter_def routerCalls_def freshAccessory_def Let_def)
next
  case (Some i)
  then have "generate (identityKey router) \<in> UUID ` set (accessories p)"
    using findIndex_Some [OF Some] by (metis image_eqI nth_mem)
  with Some show ?thesis
    by (simp add: discoverRouter_def routerCalls_def Let_def)
qed

lemma routerCalls_cong:
  "map UUID k1 = map UUID k2 \<Longrightarrow> routerCalls generate k1 = routerCalls generate k2"
proof -
  assume "map UUID k1 = map UUID k2"
  then have "set (map UUID k1) = set (map UUID k2)" by simp
  then have "UUID ` set k1 = UUID ` set k2" by simp
  then show ?thesis by (simp add: routerCalls_def fun_eq_iff)
qed

lemma first_loop_UUIDs:
  "map UUID (accessories (foldl (discoverRouter generate) p routers)) = map UUID (accessories p)"
  by (induction routers arbitrary: p) (simp_all add: discoverRouter_UUIDs)

lemma first_loop_calls:
  "calls (foldl (discoverRouter generate) p routers) =
     calls p @ concat (map (routerCalls generate (accessories p)) routers)"
proof (induction routers arbitrary: p)
  case Nil
  show ?case by simp
next
  case (Cons r rs)
  have "routerCalls generate (accessories (discoverRouter generate p r)) =
        routerCalls generate (accessories p)"
    by (rule routerCalls_cong) (rule discoverRouter_UUIDs)
  then show ?case
    by (simp add: Cons.IH discoverRouter_calls)
qed

lemma removeMissing_accessories:
  "accessories (removeMissing generate routers p a) = accessories p"
  by (simp add: removeMissing_def)

lemma removeMissing_calls:
  "calls (removeMissing generate routers p a) =
     calls p @ (if UUID a \<notin> (\<lambda>router. generate (identityKey router)) ` set routers
                then [UnregisterPlatformAccessories [a]] else [])"
proof -
  have "list_ex (\<lambda>router. generate (identityKey router) = UUID a) routers
          \<longleftrightarrow> UUID a \<in> (\<lambda>router. generate (identityKey router)) ` set routers"
    by (force simp: list_ex_iff)
  then show ?thesis by (simp add: removeMissing_def)
qed

lemma second_loop_accessories:
  "accessories (foldl (removeMissing generate routers) p as) = accessories p"
proof (induction as arbitrary: p)
  case Nil
  show ?case by simp
next
  case (Cons a as)
  show ?case
    using Cons.IH [of "removeMissing generate routers p a"]
    by (simp add: removeMissing_accessories)
qed

lemma second_loop_calls:
  "calls (foldl (removeMissing generate routers) p as) =
     calls p @ map (\<lambda>a. UnregisterPlatformAccessories [a])
       (filter (\<lambda>a. UUID a \<notin> (\<lambda>router. generate (identityKey router)) ` set routers) as)"
proof (induction as arbitrary: p)
  case Nil
  show ?case by simp
next
  case (Cons a as)
  show ?case
    using Cons.IH [of "removeMissing generate routers p a"]
    by (simp add: removeMissing_calls)
qed

lemma first_loop_unmatched:
  "i < length (accessories p) \<Longrightarrow>
   \<forall>router\<in>set routers. generate (identityKey router) \<noteq> UUID (accessories p ! i) \<Longrightarrow>
   accessories (foldl (discoverRouter generate) p routers) ! i = accessories p ! i"
proof (induction routers arbitrary: p)
  case Nil
  show ?case by simp
next
  case (Cons r rs)
  let ?q = "discoverRouter generate p r"
  have u: "map UUID (accessories ?q) = map UUID (accessories p)"
    by (rule discoverRouter_UUIDs)
  then have len: "length (accessories ?q) = length (accessories p)"
    using map_eq_imp_length_eq by blast
  have same: "accessories ?q ! i = accessories p ! i"
  proof (cases "findIndex (\<lambda>a. UUID a = generate (identityKey r)) (accessories p)")
    case None
    then show ?thesis by (simp add: discoverRouter_def Let_def)
  next
    case (Some j)
    have "UUID (accessories p ! j) = generate (identityKey r)"
      using findIndex_Some [OF Some] by simp
    moreover have "generate (identityKey r) \<noteq> UUID (accessories p ! i)"
      using Cons.prems(2) by simp
    ultimately have "j \<noteq> i" by auto
    with Some show ?thesis by (simp add: discoverRouter_def Let_def)
  qed
  have "accessories (foldl (discoverRouter generate) ?q rs) ! i = accessories ?q ! i"
    using Cons.IH [of ?q] Cons.prems len same by simp
  with same show ?case by simp
qed

lemma filter_eq_by_nth:
  "length xs = length ys \<Longrightarrow>
   \<forall>i<length xs. P (xs ! i) = P (ys ! i) \<and> (P (ys ! i) \<longrightarrow> xs ! i = ys ! i) \<Longrightarrow>
   filter P xs = filter P ys"
proof (induction xs ys rule: list_induct2)
  case Nil
  show ?case by simp
next
  case (Cons x xs y ys)
  have hd: "P x = P y \<and> (P y \<longrightarrow> x = y)"
    using Cons.prems by (auto dest: spec [of _ 0])
  have "\<forall>i<length xs. P (xs ! i) = P (ys ! i) \<and> (P (ys ! i) \<longrightarrow> xs ! i = ys ! i)"
  proof (intro allI impI)
    fix i assume "i < length xs"
    then have "Suc i < length (x # xs)" by simp
    with Cons.prems have "P ((x # xs) ! Suc i) = P ((y # ys) ! Suc i) \<and>
        (P ((y # ys) ! Suc i) \<longrightarrow> (x # xs) ! Suc i = (y # ys) ! Suc i)"
      by blast
    then show "P (xs ! i) = P (ys ! i) \<and> (P (ys ! i) \<longrightarrow> xs ! i = ys ! i)" by simp
  qed
  with Cons.IH have "filter P xs = filter P ys" by blast
  with hd show ?case by auto
qed

lemma discoverDevices_calls:
  "calls (discoverDevices generate (Some routers) \<lparr>accessories = known, calls = cs\<rparr>) =
     cs @ concat (map (routerCalls generate known) routers) @
     map (\<lambda>a. UnregisterPlatformAccessories [a]) (spec_remove generate routers known)"
proof -
  let ?p = "\<lparr>accessories = known, calls = cs\<rparr>"
  let ?p1 = "foldl (discoverRouter generate) ?p routers"
  let ?P = "\<lambda>a. UUID a \<notin> (\<lambda>router. generate (identityKey router)) ` set routers"
  have u: "map UUID (accessories ?p1) = map UUID known"
    using first_loop_UUIDs [of generate ?p routers] by simp
  then have len: "length (accessories ?p1) = length known"
    using map_eq_imp_length_eq by blast
  have nth: "\<forall>i<length (accessories ?p1).
      ?P (accessories ?p1 ! i) = ?P (known ! i) \<and> (?P (known ! i) \<longrightarrow> accessories ?p1 ! i = known ! i)"
  proof (intro allI impI conjI)
    fix i assume i: "i < length (accessories ?p1)"
    have "UUID (accessories ?p1 ! i) = UUID (known ! i)"
      using u i len by (metis nth_map)
    then show "?P (accessories ?p1 ! i) = ?P (known ! i)" by simp
  next
    fix i assume i: "i < length (accessories ?p1)" and P: "?P (known ! i)"
    have "\<forall>router\<in>set routers. generate (identityKey router) \<noteq> UUID (accessories ?p ! i)"
      using P by force
    then show "accessories ?p1 ! i = known ! i"
      using first_loop_unmatched [of i ?p routers generate] i len by simp
  qed
  have "filter ?P (accessories ?p1) = filter ?P known"
    using filter_eq_by_nth [OF len nth] .
  then show ?thesis
    by (simp add: discoverDevices_def Let_def second_loop_calls first_loop_calls spec_remove_def)
qed

lemma discoverDevices_accessories_UUIDs:
  "map UUID (accessories (discoverDevices generate (Some routers) p)) = map UUID (accessories p)"
  by (simp add: discoverDevices_def Let_def second_loop_accessories first_loop_UUIDs)

lemma registered_append: "registered (xs @ ys) = registered xs @ registered ys"
  by (induction xs rule: registered.induct) simp_all

lemma unregistered_append: "unregistered (xs @ ys) = unregistered xs @ unregistered ys"
  by (induction xs rule: unregistered.induct) simp_all

lemma timers_append: "timers (xs @ ys) = timers xs @ timers ys"
  by (induction xs rule: timers.induct) simp_all

lemma registered_routerCalls:
  "registered (concat (map (routerCalls generate known) routers)) =
     map (\<lambda>router. [freshAccessory generate router]) (spec_add generate routers known)"
  by (induction routers) (simp_all add: registered_append routerCalls_def spec_add_def)

lemma unregistered_routerCalls:
  "unregistered (concat (map (routerCalls generate known) routers)) = []"
  by (induction routers) (simp_all add: unregistered_append routerCalls_def)

lemma timers_routerCalls:
  "timers (concat (map (routerCalls generate known) routers)) =
     map (\<lambda>router. (generate (identityKey router), router, effectivePollingInterval router)) routers"
  by (induction routers) (simp_all add: timers_append routerCalls_def)

lemma registered_unregister_calls:
  "registered (map (\<lambda>a. UnregisterPlatformAccessories [a]) as) = []"
  by (induction as) simp_all

lemma unregistered_unregister_calls:
  "unregistered (map (\<lambda>a. UnregisterPlatformAccessories [a]) as) = map (\<lambda>a. [a]) as"
  by (induction as) simp_all

lemma timers_unregister_calls:
  "timers (map (\<lambda>a. UnregisterPlatformAccessories [a]) as) = []"
  by (induction as) simp_all

lemma discoverDevices_registered:
  "registered (calls (discoverDevices generate (Some routers) \<lparr>accessories = known, calls = []\<rparr>)) =
     map (\<lambda>router. [freshAccessory generate router]) (spec_add generate routers known)"
  by (simp add: discoverDevices_calls registered_append registered_routerCalls
      registered_unregister_calls)

lemma discoverDevices_unregistered:
  "unregistered (calls (discoverDevices generate (Some routers) \<lparr>accessories = known, calls = []\<rparr>)) =
     map (\<lambda>a. [a]) (spec_remove generate routers known)"
  by (simp add: discoverDevices_calls unregistered_append unregistered_routerCalls
      unregistered_unregister_calls)

lemma discoverDevices_timers:
  "timers (calls (discoverDevices generate (Some routers) \<lparr>accessories = known, calls = []\<rparr>)) =
     map (\<lambda>router. (generate (identityKey router), router, effectivePollingInterval router)) routers"
  by (simp add: discoverDevices_calls timers_append timers_routerCalls timers_unregister_calls)

lemma discoverRouter_accessories:
  "accessories (discoverRouter generate q router) =
     (case findIndex (\<lambda>a. UUID a = generate (identityKey router)) (accessories q) of
        None \<Rightarrow> accessories q
      | Some j \<Rightarrow> (accessories q)[j := applyRouter router (accessories q ! j)])"
  by (simp add: discoverRouter_def Let_def split: option.splits)

lemma first_loop_matched:
  assumes i: "i < length (accessories p)"
  shows "if \<exists>r\<in>set routers. findIndex (\<lambda>a. UUID a = generate (identityKey r)) (accessories p) = Some i
         then \<exists>r\<in>set routers. generate (identityKey r) = UUID (accessories p ! i) \<and>
                accessories (foldl (discoverRouter generate) p routers) ! i =
                  applyRouter r (accessories p ! i)
         else accessories (foldl (discoverRouter generate) p routers) ! i = accessories p ! i"
proof (induction routers rule: rev_induct)
  case Nil
  show ?case by simp
next
  case (snoc r rs)
  let ?q = "foldl (discoverRouter generate) p rs"
  let ?ix = "\<lambda>r. findIndex (\<lambda>a. UUID a = generate (identityKey r)) (accessories p)"
  have u: "map UUID (accessories ?q) = map UUID (accessories p)"
    by (rule first_loop_UUIDs)
  then have len: "length (accessories ?q) = length (accessories p)"
    using map_eq_imp_length_eq by blast
  have ix: "findIndex (\<lambda>a. UUID a = generate (identityKey r)) (accessories ?q) = ?ix r"
    by (rule findIndex_UUID_cong) (rule u)
  have step: "accessories (foldl (discoverRouter generate) p (rs @ [r])) =
      (case ?ix r of None \<Rightarrow> accessories ?q
       | Some j \<Rightarrow> (accessories ?q)[j := applyRouter r (accessories ?q ! j)])"
    by (simp add: discoverRouter_accessories ix)
  have prev: "accessories ?q ! i = accessories p ! i \<or>
      (\<exists>r'\<in>set rs. accessories ?q ! i = applyRouter r' (accessories p ! i))"
    using snoc.IH by (auto split: if_splits)
  show ?case
  proof (cases "?ix r = Some i")
    case True
    have "generate (identityKey r) = UUID (accessories p ! i)"
      using findIndex_Some [OF True] by simp
    moreover have "accessories (foldl (discoverRouter generate) p (rs @ [r])) ! i =
        applyRouter r (accessories p ! i)"
      using prev True step i len by auto
    ultimately show ?thesis using True by auto
  next
    case False
    have same: "accessories (foldl (discoverRouter generate) p (rs @ [r])) ! i = accessories ?q ! i"
      using False step by (cases "?ix r") auto
    have "(\<exists>r'\<in>set (rs @ [r]). ?ix r' = Some i) \<longleftrightarrow> (\<exists>r'\<in>set rs. ?ix r' = Some i)"
      using False by auto
    then show ?thesis
      using snoc.IH same by (auto split: if_splits)
  qed
qed

lemma findIndex_member:
  "u \<in> UUID ` set known \<Longrightarrow> \<exists>i. findIndex (\<lambda>a. UUID a = u) known = Some i"
  using findIndex_None_iff [of "\<lambda>a. UUID a = u" known] by (cases "findIndex (\<lambda>a. UUID a = u) known") auto

lemma discoverDevices_accessories:
  "accessories (discoverDevices generate (Some routers) p) =
     accessories (foldl (discoverRouter generate) p routers)"
  by (simp add: discoverDevices_def Let_def second_loop_accessories)

lemma discoverDevices_reuses:
  assumes "router \<in> set routers" "generate (identityKey router) \<in> UUID ` set known"
  shows "\<exists>i<length known. UUID (known ! i) = generate (identityKey router) \<and>
           (\<exists>r\<in>set routers. generate (identityKey r) = generate (identityKey router) \<and>
              accessories (discoverDevices generate (Some routers) \<lparr>accessories = known, calls = cs\<rparr>) ! i =
                applyRouter r (known ! i))"
proof -
  let ?p = "\<lparr>accessories = known, calls = cs\<rparr>"
  obtain i where ix: "findIndex (\<lambda>a. UUID a = generate (identityKey router)) known = Some i"
    using findIndex_member [OF assms(2)] by blast
  have i: "i < length known" and ui: "UUID (known ! i) = generate (identityKey router)"
    using findIndex_Some [OF ix] by simp_all
  have "\<exists>r\<in>set routers. findIndex (\<lambda>a. UUID a = generate (identityKey r)) (accessories ?p) = Some i"
    using assms(1) ix by auto
  then have "\<exists>r\<in>set routers. generate (identityKey r) = UUID (accessories ?p ! i) \<and>
      accessories (foldl (discoverRouter generate) ?p routers) ! i = applyRouter r (accessories ?p ! i)"
    using first_loop_matched [of i ?p routers generate] i by simp
  then show ?thesis
    using i ui by (auto simp: discoverDevices_accessories)
qed

lemma concat_singletons: "concat (map (\<lambda>x. [f x]) xs) = map f xs"
  by (induction xs) simp_all

lemmas reconcile_eval = spec_add_def spec_keep_def spec_remove_def identityKey_def seedUUID_def
  sampleRouter_def platformAccessory_def freshAccessory_def applyRouter_def

text \<open>
  C2, as the claim states it, fails: a pass that adds two routers calls the
  registration operation twice, and a pass that removes two accessories calls the
  unregistration operation twice.
\<close>

theorem register_per_device_counterexample:
  "length (registered (calls (discoverDevices seedUUID
      (Some [sampleRouter ''A'' ''10.0.0.1'' None, sampleRouter ''B'' ''10.0.0.2'' None])
      \<lparr>accessories = [], calls = []\<rparr>))) = 2
   \<and> length (unregistered (calls (discoverDevices seedUUID (Some [])
      \<lparr>accessories = [platformAccessory ''A'' ''homepageUrl_10.0.0.1'',
                       platformAccessory ''B'' ''homepageUrl_10.0.0.2''], calls = []\<rparr>))) = 2"
  by (simp add: discoverDevices_registered discoverDevices_unregistered reconcile_eval)

text \<open>
  C2, amended. In every reconciliation pass the registration operation is called once
  for each added router, each call with the one new accessory, in the order of the
  configuration; the unregistration operation is called once for each removed
  accessory, each call with that one accessory, in the order of the known list. A pass
  that adds or removes nothing makes no such call.
\<close>

theorem register_once_per_added_device:
  "registered (calls (discoverDevices generate (Some routers) \<lparr>accessories = known, calls = []\<rparr>))
     = map (\<lambda>router. [freshAccessory generate router]) (spec_add generate routers known)
   \<and> unregistered (calls (discoverDevices generate (Some routers) \<lparr>accessories = known, calls = []\<rparr>))
     = map (\<lambda>a. [a]) (spec_remove generate routers known)"
  by (simp add: discoverDevices_registered discoverDevices_unregistered)

theorem register_once_per_added_device_witness:
  "registered (calls (discoverDevices seedUUID
      (Some [sampleRouter ''A'' ''10.0.0.1'' None, sampleRouter ''B'' ''10.0.0.2'' None])
      \<lparr>accessories = [platformAccessory ''C'' ''homepageUrl_10.0.0.3''], calls = []\<rparr>))
     = [[freshAccessory seedUUID (sampleRouter ''A'' ''10.0.0.1'' None)],
        [freshAccessory seedUUID (sampleRouter ''B'' ''10.0.0.2'' None)]]
   \<and> unregistered (calls (discoverDevices seedUUID
      (Some [sampleRouter ''A'' ''10.0.0.1'' None, sampleRouter ''B'' ''10.0.0.2'' None])
      \<lparr>accessories = [platformAccessory ''C'' ''homepageUrl_10.0.0.3''], calls = []\<rparr>))
     = [[platformAccessory ''C'' ''homepageUrl_10.0.0.3'']]"
  using register_once_per_added_device [of seedUUID
      "[sampleRouter ''A'' ''10.0.0.1'' None, sampleRouter ''B'' ''10.0.0.2'' None]"
      "[platformAccessory ''C'' ''homepageUrl_10.0.0.3'']"]
  by (simp add: reconcile_eval)

text \<open>
  C5. Reconciliation is a difference over identities. The accessories registered are
  the new accessories of the configured routers whose identity no known accessory
  has, in configuration order; the accessories unregistered are the known accessories
  whose identity no configured router has; every configured router gets its timer on
  its identity; the known accessories stay in place; for a configured router whose
  identity is known, the known accessory with that identity is the one written to; a
  new accessory carries the router's identity, name and configuration.
\<close>

theorem reconcile_set_difference:
  "concat (registered (calls (discoverDevices generate (Some routers) \<lparr>accessories = known, calls = []\<rparr>)))
     = map (freshAccessory generate) (spec_add generate routers known)
   \<and> concat (unregistered (calls (discoverDevices generate (Some routers) \<lparr>accessories = known, calls = []\<rparr>)))
     = spec_remove generate routers known
   \<and> map fst (timers (calls (discoverDevices generate (Some routers) \<lparr>accessories = known, calls = []\<rparr>)))
     = map (\<lambda>router. generate (identityKey router)) routers
   \<and> map UUID (accessories (discoverDevices generate (Some routers) \<lparr>accessories = known, calls = []\<rparr>))
     = map UUID known
   \<and> (\<forall>router\<in>set (spec_keep generate routers known).
        \<exists>i<length known. UUID (known ! i) = generate (identityKey router) \<and>
          (\<exists>r\<in>set routers. generate (identityKey r) = generate (identityKey router) \<and>
             accessories (discoverDevices generate (Some routers) \<lparr>accessories = known, calls = []\<rparr>) ! i
               = applyRouter r (known ! i)))
   \<and> (\<forall>router\<in>set (spec_add generate routers known).
        UUID (freshAccessory generate router) = generate (identityKey router) \<and>
        displayName (freshAccessory generate router) = name router \<and>
        context_device (freshAccessory generate router) = Some router)"
proof (intro conjI ballI)
  show "concat (registered (calls (discoverDevices generate (Some routers) \<lparr>accessories = known, calls = []\<rparr>)))
     = map (freshAccessory generate) (spec_add generate routers known)"
    by (simp add: discoverDevices_registered concat_singletons)
  show "concat (unregistered (calls (discoverDevices generate (Some routers) \<lparr>accessories = known, calls = []\<rparr>)))
     = spec_remove generate routers known"
    by (simp add: discoverDevices_unregistered concat_singletons)
  show "map fst (timers (calls (discoverDevices generate (Some routers) \<lparr>accessories = known, calls = []\<rparr>)))
     = map (\<lambda>router. generate (identityKey router)) routers"
    by (simp add: discoverDevices_timers)
  show "map UUID (accessories (discoverDevices generate (Some routers) \<lparr>accessories = known, calls = []\<rparr>))
     = map UUID known"
    using discoverDevices_accessories_UUIDs [of generate routers "\<lparr>accessories = known, calls = []\<rparr>"]
    by simp
next
  fix router assume "router \<in> set (spec_keep generate routers known)"
  then have "router \<in> set routers" "generate (identityKey router) \<in> UUID ` set known"
    by (simp_all add: spec_keep_def)
  then show "\<exists>i<length known. UUID (known ! i) = generate (identityKey router) \<and>
          (\<exists>r\<in>set routers. generate (identityKey r) = generate (identityKey router) \<and>
             accessories (discoverDevices generate (Some routers) \<lparr>accessories = known, calls = []\<rparr>) ! i
               = applyRouter r (known ! i))"
    by (rule discoverDevices_reuses)
next
  fix router assume "router \<in> set (spec_add generate routers known)"
  show "UUID (freshAccessory generate router) = generate (identityKey router)"
    by (simp add: freshAccessory_def platformAccessory_def)
  show "displayName (freshAccessory generate router) = name router"
    by (simp add: freshAccessory_def platformAccessory_def applyRouter_def)
  show "context_device (freshAccessory generate router) = Some router"
    by (simp add: freshAccessory_def platformAccessory_def applyRouter_def)
qed

text \<open>
  The two examples: routers A and B against the known accessory of A keep A, add B and
  remove nothing; router B against the known accessories of A and B keeps B and
  removes A.
\<close>

theorem reconcile_set_difference_witness:
  "spec_keep seedUUID [sampleRouter ''A'' ''10.0.0.1'' None, sampleRouter ''B'' ''10.0.0.2'' None]
      [platformAccessory ''A'' ''homepageUrl_10.0.0.1'']
     = [sampleRouter ''A'' ''10.0.0.1'' None]
   \<and> concat (registered (calls (discoverDevices seedUUID
        (Some [sampleRouter ''A'' ''10.0.0.1'' None, sampleRouter ''B'' ''10.0.0.2'' None])
        \<lparr>accessories = [platformAccessory ''A'' ''homepageUrl_10.0.0.1''], calls = []\<rparr>)))
     = [freshAccessory seedUUID (sampleRouter ''B'' ''10.0.0.2'' None)]
   \<and> concat (unregistered (calls (discoverDevices seedUUID
        (Some [sampleRouter ''A'' ''10.0.0.1'' None, sampleRouter ''B'' ''10.0.0.2'' None])
        \<lparr>accessories = [platformAccessory ''A'' ''homepageUrl_10.0.0.1''], calls = []\<rparr>)))
     = []
   \<and> accessories (discoverDevices seedUUID
        (Some [sampleRouter ''A'' ''10.0.0.1'' None, sampleRouter ''B'' ''10.0.0.2'' None])
        \<lparr>accessories = [platformAccessory ''A'' ''homepageUrl_10.0.0.1''], calls = []\<rparr>) ! 0
     = applyRouter (sampleRouter ''A'' ''10.0.0.1'' None)
         (platformAccessory ''A'' ''homepageUrl_10.0.0.1'')
   \<and> spec_keep seedUUID [sampleRouter ''B'' ''10.0.0.2'' None]
      [platformAccessory ''A'' ''homepageUrl_10.0.0.1'', platformAccessory ''B'' ''homepageUrl_10.0.0.2'']
     = [sampleRouter ''B'' ''10.0.0.2'' None]
   \<and> concat (registered (calls (discoverDevices seedUUID
        (Some [sampleRouter ''B'' ''10.0.0.2'' None])
        \<lparr>accessories = [platformAccessory ''A'' ''homepageUrl_10.0.0.1'',
                         platformAccessory ''B'' ''homepageUrl_10.0.0.2''], calls = []\<rparr>)))
     = []
   \<and> concat (unregistered (calls (discoverDevices seedUUID
        (Some [sampleRouter ''B'' ''10.0.0.2'' None])
        \<lparr>accessories = [platformAccessory ''A'' ''homepageUrl_10.0.0.1'',
                         platformAccessory ''B'' ''homepageUrl_10.0.0.2''], calls = []\<rparr>)))
     = [platformAccessory ''A'' ''homepageUrl_10.0.0.1'']"
  using reconcile_set_difference [of seedUUID
      "[sampleRouter ''A'' ''10.0.0.1'' None, sampleRouter ''B'' ''10.0.0.2'' None]"
      "[platformAccessory ''A'' ''homepageUrl_10.0.0.1'']"]
    reconcile_set_difference [of seedUUID
      "[sampleRouter ''B'' ''10.0.0.2'' None]"
      "[platformAccessory ''A'' ''homepageUrl_10.0.0.1'', platformAccessory ''B'' ''homepageUrl_10.0.0.2'']"]
  by (simp add: reconcile_eval)

section \<open>The polling period\<close>






section \<open>The normalizer\<close>

subsection \<open>The address as the parser sees it\<close>

lemma asciiLower_cases:
  "asciiLower c = c \<or> (isAsciiUpperAlpha c \<and> isAsciiLowerAlpha (asciiLower c))"
  by (simp add: asciiLower_def isAsciiUpperAlpha_def isAsciiLowerAlpha_def)

lemma upper_is_alpha: "isAsciiUpperAlpha c \<Longrightarrow> isAsciiAlpha c"
  by (auto simp: isAsciiAlpha_def isAsciiUpperAlpha_def)

lemma asciiLower_alpha: "isAsciiAlpha (asciiLower c) \<Longrightarrow> isAsciiAlpha c"
  using asciiLower_cases [of c] upper_is_alpha [of c] by auto

lemma alpha_not_ws: "isAsciiAlpha c \<Longrightarrow> \<not> isC0ControlOrSpace c"
  by (auto simp: isAsciiAlpha_def isC0ControlOrSpace_def)

lemma tab_is_ws: "isTabOrNewline c \<Longrightarrow> isC0ControlOrSpace c"
  by (auto simp: isTabOrNewline_def isC0ControlOrSpace_def)

lemma asciiLower_fixed:
  "asciiLower c = d \<Longrightarrow> \<not> isAsciiLowerAlpha d \<Longrightarrow> c = d"
  using asciiLower_cases [of c] by auto

lemma asciiLower_not_ws:
  "\<not> isC0ControlOrSpace (asciiLower c) \<Longrightarrow> \<not> isC0ControlOrSpace c"
  using asciiLower_cases [of c] upper_is_alpha [of c] alpha_not_ws [of c] by auto

lemma strip_trailing_append:
  assumes "p \<noteq> []" "\<not> P (last p)"
  shows "rev (dropWhile P (rev (p @ r))) = p @ rev (dropWhile P (rev r))"
proof (cases "\<forall>x\<in>set (rev r). P x")
  case True
  have "dropWhile P (rev p) = rev p"
    using assms by (cases "rev p") (auto simp: hd_rev dest: arg_cong [where f = hd])
  moreover have "dropWhile P (rev r) = []"
    using True by simp
  moreover have "dropWhile P (rev r @ rev p) = dropWhile P (rev p)"
    by (rule dropWhile_append2) (use True in auto)
  ultimately show ?thesis by simp
next
  case False
  then obtain x where "x \<in> set (rev r)" "\<not> P x" by blast
  then have "dropWhile P (rev r @ rev p) = dropWhile P (rev r) @ rev p"
    by (rule dropWhile_append1)
  then show ?thesis by simp
qed

lemma prepareInput_prefix:
  assumes "p \<noteq> []" "\<forall>c\<in>set p. \<not> isC0ControlOrSpace c"
  shows "prepareInput (p @ r) = p @ trimEnd r"
proof -
  obtain c p' where p: "p = c # p'" using assms(1) by (cases p) auto
  have "\<not> isC0ControlOrSpace c" using assms(2) p by simp
  then have lead: "dropWhile isC0ControlOrSpace (p @ r) = p @ r"
    using p by simp
  have "\<not> isC0ControlOrSpace (last p)"
    using assms by (meson last_in_set)
  then have trail: "rev (dropWhile isC0ControlOrSpace (rev (p @ r))) =
      p @ rev (dropWhile isC0ControlOrSpace (rev r))"
    using strip_trailing_append [OF assms(1)] by blast
  have "filter (\<lambda>c. \<not> isTabOrNewline c) p = p"
    using assms(2) tab_is_ws by (auto simp: filter_id_conv)
  then show ?thesis
    using lead trail by (simp add: prepareInput_def stripC0_def trimEnd_def)
qed

lemma parseScheme_prefix:
  assumes "sch \<noteq> []" "isAsciiAlpha (hd sch)" "\<forall>c\<in>set sch. isSchemeChar c"
  shows "parseScheme (sch @ CHR '':'' # rest) = Some (map asciiLower sch, rest)"
proof -
  obtain c cs where sch: "sch = c # cs" using assms(1) by (cases sch) auto
  have colon: "\<not> isSchemeChar CHR '':''"
    by (simp add: isSchemeChar_def isAsciiAlpha_def isAsciiDigit_def)
  have d: "dropWhile isSchemeChar (sch @ CHR '':'' # rest) = CHR '':'' # rest"
    using assms(3) colon by (simp add: dropWhile_append2)
  have t: "takeWhile isSchemeChar (sch @ CHR '':'' # rest) = sch"
    using assms(3) colon by (simp add: takeWhile_append2)
  show ?thesis
    using assms(2) d t sch
    by (simp add: parseScheme_def del: dropWhile.simps takeWhile.simps dropWhile_append takeWhile_append)
qed

lemma map_asciiLower_fixed:
  "map asciiLower p = q \<Longrightarrow> \<forall>d\<in>set q. \<not> isAsciiLowerAlpha d \<Longrightarrow> p = q"
proof (induction p arbitrary: q)
  case Nil
  then show ?case by simp
next
  case (Cons c p)
  then obtain d q' where q: "q = d # q'" "asciiLower c = d" "map asciiLower p = q'"
    by auto
  have "\<not> isAsciiLowerAlpha d" using Cons.prems(2) q(1) by simp
  then have "c = d" using q(2) asciiLower_fixed by blast
  moreover have "p = q'" using Cons.IH [OF q(3)] Cons.prems(2) q(1) by simp
  ultimately show ?case using q(1) by simp
qed

lemma scheme_chars_not_ws:
  "sch = ''http'' \<or> sch = ''https'' \<Longrightarrow> d \<in> set (sch @ ''://'') \<Longrightarrow> \<not> isC0ControlOrSpace d"
  by (auto simp: isC0ControlOrSpace_def)

lemma scheme_chars_alpha:
  "sch = ''http'' \<or> sch = ''https'' \<Longrightarrow> d \<in> set sch \<Longrightarrow> isAsciiAlpha d"
  by (auto simp: isAsciiAlpha_def)

lemma separator_fixed: "\<forall>d\<in>set ''://''. \<not> isAsciiLowerAlpha d"
  by (simp add: isAsciiLowerAlpha_def)

lemma URL_new_scheme_prefix:
  assumes low: "map asciiLower p = sch @ ''://''" and sch: "sch = ''http'' \<or> sch = ''https''"
  shows "URL_new hp (p @ r) = parseAuthority hp sch (''//'' @ trimEnd r)"
proof -
  obtain p1 p2 where p: "p = p1 @ p2" and p1: "map asciiLower p1 = sch"
    and p2: "map asciiLower p2 = ''://''"
    using low by (auto simp: map_eq_append_conv)
  have p2': "p2 = ''://''"
    using map_asciiLower_fixed [OF p2 separator_fixed] .
  have ne: "p1 \<noteq> []" using p1 sch by auto
  have nows: "\<forall>c\<in>set p. \<not> isC0ControlOrSpace c"
  proof
    fix c assume "c \<in> set p"
    then have "asciiLower c \<in> set (map asciiLower p)" by simp
    then have "asciiLower c \<in> set (sch @ ''://'')" using low by simp
    then have "\<not> isC0ControlOrSpace (asciiLower c)"
      using scheme_chars_not_ws [OF sch] by blast
    then show "\<not> isC0ControlOrSpace c" by (rule asciiLower_not_ws)
  qed
  have alpha: "\<forall>c\<in>set p1. isAsciiAlpha c"
  proof
    fix c assume "c \<in> set p1"
    then have "asciiLower c \<in> set (map asciiLower p1)" by simp
    then have "asciiLower c \<in> set sch" using p1 by simp
    then have "isAsciiAlpha (asciiLower c)" using scheme_chars_alpha [OF sch] by blast
    then show "isAsciiAlpha c" by (rule asciiLower_alpha)
  qed
  have hd: "isAsciiAlpha (hd p1)" using alpha ne by simp
  have schars: "\<forall>c\<in>set p1. isSchemeChar c" using alpha by (simp add: isSchemeChar_def)
  have "p \<noteq> []" using p ne by simp
  then have "prepareInput (p @ r) = p @ trimEnd r"
    using prepareInput_prefix nows by blast
  also have "\<dots> = p1 @ CHR '':'' # (''//'' @ trimEnd r)"
    using p p2' by simp
  finally have "parseScheme (prepareInput (p @ r)) = Some (sch, ''//'' @ trimEnd r)"
    using parseScheme_prefix [OF ne hd schars] p1 by simp
  then show ?thesis
    using sch by (auto simp: URL_new_def)
qed

lemma parseAuthority_slashes: "parseAuthority hp sch (''//'' @ y) = parseAuthority hp sch y"
  by (simp add: parseAuthority_def splitAuthority_def isSlash_def)

lemma URL_new_prefixed:
  "URL_new hp (''http://'' @ inputUrl) = parseAuthority hp ''http'' (trimEnd inputUrl)"
proof -
  have "map asciiLower ''http://'' = ''http'' @ ''://''"
    by (simp add: asciiLower_def)
  then have "URL_new hp (''http://'' @ inputUrl) = parseAuthority hp ''http'' (''//'' @ trimEnd inputUrl)"
    by (rule URL_new_scheme_prefix) simp
  then show ?thesis by (simp only: parseAuthority_slashes)
qed

lemma URL_new_with_scheme:
  assumes "startsWithIgnoreCase pat inputUrl" "pat = sch @ ''://''" "length pat = n"
    and "sch = ''http'' \<or> sch = ''https''"
  shows "URL_new hp inputUrl = parseAuthority hp sch (trimEnd (drop n inputUrl))"
proof -
  have "map asciiLower (take n inputUrl) = sch @ ''://''"
    using assms(1,2,3) by (simp add: startsWithIgnoreCase_def)
  then have "URL_new hp (take n inputUrl @ drop n inputUrl) =
      parseAuthority hp sch (''//'' @ trimEnd (drop n inputUrl))"
    using assms(4) by (rule URL_new_scheme_prefix)
  then show ?thesis by (simp only: parseAuthority_slashes append_take_drop_id)
qed

lemma parseUrl_alt:
  "parseUrl hp inputUrl =
     map_sum id setDefaultPort
       (if \<not> hasHttpScheme inputUrl then URL_new hp (''http://'' @ inputUrl)
        else URL_new hp inputUrl)"
  unfolding parseUrl_def setDefaultPort_def
  by (cases "if \<not> hasHttpScheme inputUrl then URL_new hp (''http://'' @ inputUrl)
        else URL_new hp inputUrl") simp_all

lemma parseUrl_unfold:
  "parseUrl hp inputUrl =
     map_sum id setDefaultPort
       (parseAuthority hp (fst (schemeAndRest inputUrl)) (trimEnd (snd (schemeAndRest inputUrl))))"
proof -
  consider (http) "startsWithIgnoreCase ''http://'' inputUrl"
    | (https) "\<not> startsWithIgnoreCase ''http://'' inputUrl" "startsWithIgnoreCase ''https://'' inputUrl"
    | (none) "\<not> hasHttpScheme inputUrl"
    by (auto simp: hasHttpScheme_def)
  then show ?thesis
  proof cases
    case http
    have u: "URL_new hp inputUrl = parseAuthority hp ''http'' (trimEnd (drop 7 inputUrl))"
      by (rule URL_new_with_scheme [OF http]) simp_all
    have h: "hasHttpScheme inputUrl" using http by (simp add: hasHttpScheme_def)
    have s: "schemeAndRest inputUrl = (''http'', drop 7 inputUrl)"
      using http by (simp add: schemeAndRest_def)
    show ?thesis
      by (simp only: parseUrl_alt h u s fst_conv snd_conv not_True_eq_False if_False)
  next
    case https
    have u: "URL_new hp inputUrl = parseAuthority hp ''https'' (trimEnd (drop 8 inputUrl))"
      by (rule URL_new_with_scheme [OF https(2)]) simp_all
    have h: "hasHttpScheme inputUrl" using https by (simp add: hasHttpScheme_def)
    have s: "schemeAndRest inputUrl = (''https'', drop 8 inputUrl)"
      using https by (simp add: schemeAndRest_def)
    show ?thesis
      by (simp only: parseUrl_alt h u s fst_conv snd_conv not_True_eq_False if_False)
  next
    case none
    have s: "schemeAndRest inputUrl = (''http'', inputUrl)"
      using none by (simp add: schemeAndRest_def hasHttpScheme_def)
    show ?thesis
      by (simp only: parseUrl_alt none URL_new_prefixed s fst_conv snd_conv not_False_eq_True if_True)
  qed
qed

subsection \<open>The scheme\<close>

lemma parseAuthority_scheme: "parseAuthority hp sch rest = Inr u \<Longrightarrow> scheme u = sch"
  by (auto simp: parseAuthority_def split: prod.splits if_splits option.splits)

lemma parseAuthority_error: "parseAuthority hp sch rest = Inl e \<Longrightarrow> e = InvalidURL"
  by (auto simp: parseAuthority_def split: prod.splits if_splits option.splits)

lemma scheme_set_port [simp]: "scheme (set_port u v) = scheme u"
  by (simp add: set_port_def Let_def)

lemma scheme_setDefaultPort [simp]: "scheme (setDefaultPort u) = scheme u"
  by (simp add: setDefaultPort_def)

lemma scheme_of_parseUrl:
  "parseUrl hp inputUrl = Inr u \<Longrightarrow> scheme u = fst (schemeAndRest inputUrl)"
proof -
  assume a: "parseUrl hp inputUrl = Inr u"
  let ?r = "parseAuthority hp (fst (schemeAndRest inputUrl)) (trimEnd (snd (schemeAndRest inputUrl)))"
  from a have "map_sum id setDefaultPort ?r = Inr u"
    by (simp only: parseUrl_unfold)
  then obtain u0 where u0: "?r = Inr u0" "u = setDefaultPort u0"
    by (cases ?r) auto
  then show ?thesis using parseAuthority_scheme [OF u0(1)] by simp
qed

lemma parseUrl_error: "parseUrl hp inputUrl = Inl e \<Longrightarrow> e = InvalidURL"
proof -
  assume a: "parseUrl hp inputUrl = Inl e"
  let ?r = "parseAuthority hp (fst (schemeAndRest inputUrl)) (trimEnd (snd (schemeAndRest inputUrl)))"
  from a have "map_sum id setDefaultPort ?r = Inl e"
    by (simp only: parseUrl_unfold)
  then have "?r = Inl e" by (cases ?r) auto
  then show ?thesis by (rule parseAuthority_error)
qed

lemma startsWith_shorter:
  "startsWithIgnoreCase pat s \<Longrightarrow> n \<le> length pat \<Longrightarrow> map asciiLower (take n s) = take n pat"
proof -
  assume a: "startsWithIgnoreCase pat s" and n: "n \<le> length pat"
  have "take n (map asciiLower (take (length pat) s)) = take n pat"
    using a by (simp add: startsWithIgnoreCase_def)
  then show ?thesis using n by (simp add: take_map min_def)
qed

lemma https_not_http:
  "startsWithIgnoreCase ''https://'' s \<Longrightarrow> \<not> startsWithIgnoreCase ''http://'' s"
proof
  assume a: "startsWithIgnoreCase ''https://'' s" and b: "startsWithIgnoreCase ''http://'' s"
  have "map asciiLower (take 7 s) = take 7 ''https://''"
    using startsWith_shorter [OF a, of 7] by simp
  moreover have "map asciiLower (take 7 s) = ''http://''"
    using startsWith_shorter [OF b, of 7] by simp
  ultimately show False by simp
qed

text \<open>
  C6. Whenever \<^verbatim>\<open>parseUrl\<close> returns, the scheme is http for an input that does
  not start with \<open>http://\<close> or \<open>https://\<close> in any letter case, and for an input
  that does, the scheme is the one written there, in lower case.
\<close>

theorem parseUrl_scheme:
  assumes "parseUrl hp inputUrl = Inr u"
  shows "(\<not> hasHttpScheme inputUrl \<longrightarrow> protocol u = ''http:'')
       \<and> (startsWithIgnoreCase ''http://'' inputUrl
            \<longrightarrow> protocol u = ''http:'' \<and> scheme u = map asciiLower (take 4 inputUrl))
       \<and> (startsWithIgnoreCase ''https://'' inputUrl
            \<longrightarrow> protocol u = ''https:'' \<and> scheme u = map asciiLower (take 5 inputUrl))"
proof (intro conjI impI)
  assume "\<not> hasHttpScheme inputUrl"
  then show "protocol u = ''http:''"
    using scheme_of_parseUrl [OF assms]
    by (simp add: schemeAndRest_def hasHttpScheme_def protocol_def)
next
  assume a: "startsWithIgnoreCase ''http://'' inputUrl"
  then show "protocol u = ''http:''"
    using scheme_of_parseUrl [OF assms] by (simp add: schemeAndRest_def protocol_def)
  show "scheme u = map asciiLower (take 4 inputUrl)"
    using scheme_of_parseUrl [OF assms] a startsWith_shorter [OF a, of 4]
    by (simp add: schemeAndRest_def)
next
  assume a: "startsWithIgnoreCase ''https://'' inputUrl"
  then have b: "\<not> startsWithIgnoreCase ''http://'' inputUrl" by (rule https_not_http)
  show "protocol u = ''https:''"
    using scheme_of_parseUrl [OF assms] a b by (simp add: schemeAndRest_def protocol_def)
  show "scheme u = map asciiLower (take 5 inputUrl)"
    using scheme_of_parseUrl [OF assms] a b startsWith_shorter [OF a, of 5]
    by (simp add: schemeAndRest_def)
qed

lemma sample_parse_https:
  "parseUrl asciiHost ''HTTPS://Example.com:8443/a?b'' =
     Inr \<lparr>scheme = ''https'', host = ''example.com'', portNumber = Some 8443, remainder = ''/a?b''\<rparr>"
  by (simp add: url_eval)

theorem parseUrl_scheme_witness:
  "\<not> hasHttpScheme ''192.168.1.1''
   \<and> map_sum id protocol (parseUrl asciiHost ''192.168.1.1'') = Inr ''http:''
   \<and> startsWithIgnoreCase ''https://'' ''HTTPS://Example.com:8443/a?b''
   \<and> map_sum id protocol (parseUrl asciiHost ''HTTPS://Example.com:8443/a?b'') = Inr ''https:''"
  using parseUrl_scheme [OF sample_parse] parseUrl_scheme [OF sample_parse_https]
  by (simp add: sample_parse sample_parse_https hasHttpScheme_def startsWithIgnoreCase_def
      asciiLower_def)

subsection \<open>Failure\<close>

lemma decimal_Nil [simp]: "decimal [] = 0"
  by (simp add: decimal_def)

lemma parseAuthority_fails_iff:
  "parseAuthority hp sch rest = Inl InvalidURL \<longleftrightarrow>
     (case scanHost False [] (snd (credentials (fst (splitAuthority rest)))) of
        (buffer, portText) \<Rightarrow>
          buffer = [] \<or> hp buffer = None \<or>
          (\<exists>p. portText = Some p \<and> (\<not> list_all isAsciiDigit p \<or> 65535 < decimal p)))"
  by (auto simp: parseAuthority_def parsePort_def split: prod.splits option.splits if_splits)

lemma parseUrl_fails_iff:
  "parseUrl hp inputUrl = Inl InvalidURL \<longleftrightarrow>
     fst (hostAndPort inputUrl) = [] \<or> hp (fst (hostAndPort inputUrl)) = None \<or>
     (\<exists>p. snd (hostAndPort inputUrl) = Some p \<and> (\<not> list_all isAsciiDigit p \<or> 65535 < decimal p))"
proof -
  let ?sch = "fst (schemeAndRest inputUrl)"
  let ?x = "trimEnd (snd (schemeAndRest inputUrl))"
  have "parseUrl hp inputUrl = Inl InvalidURL \<longleftrightarrow> parseAuthority hp ?sch ?x = Inl InvalidURL"
    by (cases "parseAuthority hp ?sch ?x") (simp_all only: parseUrl_unfold map_sum.simps id_apply sum.simps)
  then show ?thesis
    by (simp only: parseAuthority_fails_iff [of hp ?sch ?x] hostAndPort_def split_beta)
qed

lemma parseUrl_total:
  "parseUrl hp inputUrl = Inl InvalidURL \<or> (\<exists>u. parseUrl hp inputUrl = Inr u)"
  using parseUrl_error [of hp inputUrl] by (cases "parseUrl hp inputUrl") auto

lemma ws_no_scheme:
  assumes "list_all isC0ControlOrSpace s" "pat \<noteq> []" "\<not> isC0ControlOrSpace (hd pat)"
  shows "\<not> startsWithIgnoreCase pat s"
proof
  assume a: "startsWithIgnoreCase pat s"
  have "1 \<le> length pat" using assms(2) by (cases pat) auto
  then have t: "map asciiLower (take 1 s) = take 1 pat"
    using startsWith_shorter [OF a] by blast
  obtain d ds where pat: "pat = d # ds" using assms(2) by (cases pat) auto
  then obtain c cs where s: "s = c # cs" "asciiLower c = d"
    using t by (cases s) auto
  have "\<not> isC0ControlOrSpace c"
    using assms(3) pat s(2) asciiLower_not_ws by auto
  then show False using assms(1) s(1) by simp
qed

lemma trimEnd_ws: "list_all isC0ControlOrSpace s \<Longrightarrow> trimEnd s = []"
proof -
  assume "list_all isC0ControlOrSpace s"
  then have "\<forall>x\<in>set (rev s). isC0ControlOrSpace x" by (simp add: list_all_iff)
  then have "dropWhile isC0ControlOrSpace (rev s) = []" by (simp only: dropWhile_eq_Nil_conv)
  then show ?thesis by (simp only: trimEnd_def rev.simps filter.simps)
qed

lemma parseUrl_whitespace:
  assumes "list_all isC0ControlOrSpace inputUrl"
  shows "parseUrl hp inputUrl = Inl InvalidURL"
proof -
  have "\<not> startsWithIgnoreCase ''http://'' inputUrl"
    by (rule ws_no_scheme [OF assms]) (simp_all add: isC0ControlOrSpace_def)
  moreover have "\<not> startsWithIgnoreCase ''https://'' inputUrl"
    by (rule ws_no_scheme [OF assms]) (simp_all add: isC0ControlOrSpace_def)
  ultimately have s: "schemeAndRest inputUrl = (''http'', inputUrl)"
    by (simp add: schemeAndRest_def)
  have "parseAuthority hp ''http'' [] = Inl InvalidURL"
    by (simp add: parseAuthority_def splitAuthority_def credentials_def)
  then show ?thesis
    by (simp only: parseUrl_unfold s fst_conv snd_conv trimEnd_ws [OF assms] map_sum.simps id_apply)
qed

text \<open>
  C4, as the claim states it, fails: \<open>x:99999\<close> is not empty and not white space,
  and \<^verbatim>\<open>parseUrl\<close> throws on it, the port being above 65535.
\<close>

theorem parseUrl_nonempty_counterexample:
  "''x:99999'' \<noteq> [] \<and> \<not> list_all isC0ControlOrSpace ''x:99999''
   \<and> parseUrl asciiHost ''x:99999'' = Inl InvalidURL"
  by (simp add: url_eval)

text \<open>
  C4, amended. \<^verbatim>\<open>parseUrl\<close> fails on every input made of C0 controls and
  spaces only, the empty string included, and in general it fails exactly when the host
  part of the address is empty, or the host parser rejects it, or the port part has a
  character that is no digit or denotes a number above 65535. The failure is always the
  invalid-URL error, and on every other input an origin is returned.
\<close>

theorem parseUrl_fails_exactly:
  "(list_all isC0ControlOrSpace inputUrl \<longrightarrow> parseUrl hp inputUrl = Inl InvalidURL)
   \<and> (parseUrl hp inputUrl = Inl InvalidURL \<longleftrightarrow>
        fst (hostAndPort inputUrl) = [] \<or> hp (fst (hostAndPort inputUrl)) = None \<or>
        (\<exists>p. snd (hostAndPort inputUrl) = Some p \<and>
             (\<not> list_all isAsciiDigit p \<or> 65535 < decimal p)))
   \<and> (parseUrl hp inputUrl = Inl InvalidURL \<or> (\<exists>u. parseUrl hp inputUrl = Inr u))"
  using parseUrl_whitespace [of inputUrl hp] parseUrl_fails_iff [of hp inputUrl]
    parseUrl_total [of hp inputUrl]
  by blast

lemmas host_eval = hostAndPort_def schemeAndRest_def trimEnd_def startsWithIgnoreCase_def
  asciiLower_def isC0ControlOrSpace_def isTabOrNewline_def splitAuthority_def isSlash_def
  isAuthorityEnd_def credentials_def isAsciiDigit_def decimal_def digitValue_def asciiHost_def
  isAsciiAlpha_def

theorem parseUrl_fails_exactly_witness:
  "parseUrl asciiHost ''  '' = Inl InvalidURL
   \<and> parseUrl asciiHost ''x:99999'' = Inl InvalidURL
   \<and> parseUrl asciiHost ''a b'' = Inl InvalidURL
   \<and> (\<exists>u. parseUrl asciiHost ''192.168.1.1'' = Inr u)"
  using parseUrl_fails_exactly [of "''  ''" asciiHost]
    parseUrl_fails_exactly [of "''x:99999''" asciiHost]
    parseUrl_fails_exactly [of "''a b''" asciiHost]
    parseUrl_fails_exactly [of "''192.168.1.1''" asciiHost]
  by (auto simp: host_eval)

subsection \<open>The port\<close>

lemma showNat_nonempty: "showNat n \<noteq> []"
  by (subst showNat.simps) simp

text \<open>
  The last step of \<^verbatim>\<open>parseUrl\<close> changes nothing: it runs only when the port is
  null, and the default port it assigns is stored as null again. So the port of a
  result is never the default port of its scheme.
\<close>

lemma set_port_default:
  "portNumber u = None \<Longrightarrow> scheme u = ''http'' \<Longrightarrow> set_port u ''80'' = u"
  "portNumber u = None \<Longrightarrow> scheme u = ''https'' \<Longrightarrow> set_port u ''443'' = u"
  by (simp_all add: set_port_def Let_def isAsciiDigit_def isTabOrNewline_def decimal_def
      digitValue_def defaultPort_def)

lemma setDefaultPort_noop: "setDefaultPort u = u"
proof (cases "portNumber u")
  case None
  then show ?thesis
    by (auto simp: setDefaultPort_def protocol_def set_port_default)
next
  case (Some n)
  then show ?thesis
    by (simp add: setDefaultPort_def port_def showNat_nonempty)
qed

lemma parseUrl_is_parseAuthority:
  "parseUrl hp inputUrl =
     parseAuthority hp (fst (schemeAndRest inputUrl)) (trimEnd (snd (schemeAndRest inputUrl)))"
proof -
  have "map_sum id setDefaultPort = (id :: error + url \<Rightarrow> error + url)"
  proof
    fix x :: "error + url"
    show "map_sum id setDefaultPort x = id x"
      by (cases x) (simp_all add: setDefaultPort_noop)
  qed
  then show ?thesis by (simp only: parseUrl_unfold id_apply)
qed

lemma parseAuthority_port_not_default:
  "parseAuthority hp sch rest = Inr u \<Longrightarrow> portNumber u = None \<or> portNumber u \<noteq> defaultPort sch"
  by (auto simp: parseAuthority_def parsePort_def split: prod.splits if_splits option.splits)

lemma parseUrl_port_never_default:
  assumes "parseUrl hp inputUrl = Inr u"
  shows "(scheme u = ''http'' \<longrightarrow> portNumber u \<noteq> Some 80)
       \<and> (scheme u = ''https'' \<longrightarrow> portNumber u \<noteq> Some 443)"
proof -
  let ?sch = "fst (schemeAndRest inputUrl)"
  have p: "parseAuthority hp ?sch (trimEnd (snd (schemeAndRest inputUrl))) = Inr u"
    using assms by (simp only: parseUrl_is_parseAuthority)
  have "scheme u = ?sch" using parseAuthority_scheme [OF p] .
  then show ?thesis
    using parseAuthority_port_not_default [OF p] by (auto simp: defaultPort_def)
qed

text \<open>An address with host, colon and digits.\<close>

lemma scanHost_plain:
  "\<forall>c\<in>set h. c \<noteq> CHR '':'' \<and> c \<noteq> CHR ''['' \<and> c \<noteq> CHR '']'' \<Longrightarrow>
   scanHost False buf (h @ CHR '':'' # rest) = (buf @ h, Some rest)"
  by (induction h arbitrary: buf) simp_all

lemma scanHost_no_colon:
  "\<forall>c\<in>set h. c \<noteq> CHR '':'' \<and> c \<noteq> CHR ''['' \<and> c \<noteq> CHR '']'' \<Longrightarrow>
   scanHost False buf h = (buf @ h, None)"
  by (induction h arbitrary: buf) simp_all

lemma trimEnd_prefix:
  assumes "p \<noteq> []" "\<not> isC0ControlOrSpace (last p)" "\<forall>c\<in>set p. \<not> isTabOrNewline c"
  shows "trimEnd (p @ r) = p @ trimEnd r"
proof -
  have "filter (\<lambda>c. \<not> isTabOrNewline c) p = p"
    using assms(3) by (simp add: filter_id_conv)
  then show ?thesis
    using strip_trailing_append [of p isC0ControlOrSpace r] assms(1,2) by (simp add: trimEnd_def)
qed

lemma authorityEnd_plain: "isAuthorityEnd c \<Longrightarrow> \<not> isC0ControlOrSpace c \<and> \<not> isTabOrNewline c"
  by (auto simp: isAuthorityEnd_def isC0ControlOrSpace_def isTabOrNewline_def)

lemma trimEnd_tail:
  assumes "tail = [] \<or> isAuthorityEnd (hd tail)"
  shows "trimEnd tail = [] \<or> isAuthorityEnd (hd (trimEnd tail))"
proof (cases tail)
  case Nil
  then show ?thesis by (simp add: trimEnd_def)
next
  case (Cons t ts)
  then have t: "isAuthorityEnd t" using assms by simp
  have "trimEnd ([t] @ ts) = [t] @ trimEnd ts"
    using authorityEnd_plain [OF t] by (intro trimEnd_prefix) simp_all
  then show ?thesis using Cons t by simp
qed

lemma digit_plain:
  "isAsciiDigit c \<Longrightarrow> \<not> isC0ControlOrSpace c \<and> \<not> isTabOrNewline c \<and> \<not> isAuthorityEnd c \<and> c \<noteq> CHR ''@''"
  by (auto simp: isAsciiDigit_def isC0ControlOrSpace_def isTabOrNewline_def isAuthorityEnd_def)

lemma authority_with_port:
  assumes h: "h \<noteq> []" "\<forall>c\<in>set h. isHostBufferChar c"
    and ds: "ds \<noteq> []" "list_all isAsciiDigit ds"
    and tail: "tail = [] \<or> isAuthorityEnd (hd tail)"
    and hp: "hp h = Some h'"
    and range: "decimal ds \<le> 65535" "defaultPort sch \<noteq> Some (decimal ds)"
  shows "parseAuthority hp sch (trimEnd (h @ CHR '':'' # ds @ tail)) =
           Inr \<lparr>scheme = sch, host = h', portNumber = Some (decimal ds), remainder = trimEnd tail\<rparr>"
proof -
  let ?a = "h @ CHR '':'' # ds"
  have dsp: "\<forall>c\<in>set ds. \<not> isC0ControlOrSpace c \<and> \<not> isTabOrNewline c \<and> \<not> isAuthorityEnd c \<and> c \<noteq> CHR ''@''"
    using ds(2) digit_plain by (auto simp: list_all_iff)
  have last: "\<not> isC0ControlOrSpace (last ?a)"
    using ds(1) dsp by simp
  have notab: "\<forall>c\<in>set ?a. \<not> isTabOrNewline c"
    using h(2) dsp by (auto simp: isHostBufferChar_def isTabOrNewline_def)
  have "trimEnd (?a @ tail) = ?a @ trimEnd tail"
    using last notab by (intro trimEnd_prefix) simp_all
  then have t: "trimEnd (h @ CHR '':'' # ds @ tail) = ?a @ trimEnd tail"
    by simp
  have noend: "\<forall>c\<in>set ?a. \<not> isAuthorityEnd c"
    using h(2) dsp by (auto simp: isHostBufferChar_def isAuthorityEnd_def)
  obtain c cs where hc: "h = c # cs" using h(1) by (cases h) auto
  have "\<not> isSlash c"
    using h(2) hc by (auto simp: isHostBufferChar_def isAuthorityEnd_def isSlash_def)
  then have drop: "dropWhile isSlash (?a @ trimEnd tail) = ?a @ trimEnd tail"
    using hc by simp
  have tw: "takeWhile (\<lambda>c. \<not> isAuthorityEnd c) (?a @ trimEnd tail) = ?a"
    using noend trimEnd_tail [OF tail]
    by (cases "trimEnd tail") (simp_all add: takeWhile_append2 del: takeWhile_append)
  have dw: "dropWhile (\<lambda>c. \<not> isAuthorityEnd c) (?a @ trimEnd tail) = trimEnd tail"
    using noend trimEnd_tail [OF tail]
    by (cases "trimEnd tail") (simp_all add: dropWhile_append2 del: dropWhile_append)
  have split: "splitAuthority (?a @ trimEnd tail) = (?a, trimEnd tail)"
    using drop tw dw by (simp only: splitAuthority_def Let_def)
  have noat: "\<forall>c\<in>set (rev ?a). c \<noteq> CHR ''@''"
    using h(2) dsp by (auto simp: isHostBufferChar_def)
  then have "takeWhile (\<lambda>c. c \<noteq> CHR ''@'') (rev ?a) = rev ?a"
    by (simp only: takeWhile_eq_all_conv)
  moreover have "CHR ''@'' \<notin> set ?a" using noat by auto
  ultimately have cred: "credentials ?a = (False, ?a)"
    by (simp only: credentials_def rev_rev_ident)
  have scan: "scanHost False [] ?a = (h, Some ds)"
    using scanHost_plain [of h "[]" ds] h(2) by (simp add: isHostBufferChar_def)
  have pp: "parsePort sch ds = Some (Some (decimal ds))"
    using ds range by (simp add: parsePort_def)
  have "parseAuthority hp sch (?a @ trimEnd tail) =
      Inr \<lparr>scheme = sch, host = h', portNumber = Some (decimal ds), remainder = trimEnd tail\<rparr>"
    unfolding parseAuthority_def split
    using h(1) hp by (simp add: cred scan pp)
  then show ?thesis by (simp only: t)
qed

lemma startsWith_prefix:
  assumes "map asciiLower pre = pat"
  shows "startsWithIgnoreCase pat (pre @ x)" "drop (length pat) (pre @ x) = x"
proof -
  have "length pre = length pat" using assms by (metis length_map)
  then show "startsWithIgnoreCase pat (pre @ x)" "drop (length pat) (pre @ x) = x"
    using assms by (simp_all add: startsWithIgnoreCase_def)
qed

lemma schemeAndRest_http:
  "map asciiLower pre = ''http://'' \<Longrightarrow> schemeAndRest (pre @ x) = (''http'', x)"
proof -
  assume a: "map asciiLower pre = ''http://''"
  have "length ''http://'' = (7::nat)" by simp
  then have "drop 7 (pre @ x) = x"
    using startsWith_prefix(2) [OF a, of x] by (simp only:)
  then show ?thesis
    using startsWith_prefix(1) [OF a, of x] by (simp add: schemeAndRest_def)
qed

lemma schemeAndRest_https:
  "map asciiLower pre = ''https://'' \<Longrightarrow> schemeAndRest (pre @ x) = (''https'', x)"
proof -
  assume a: "map asciiLower pre = ''https://''"
  have "length ''https://'' = (8::nat)" by simp
  then have "drop 8 (pre @ x) = x"
    using startsWith_prefix(2) [OF a, of x] by (simp only:)
  then show ?thesis
    using startsWith_prefix(1) [OF a, of x] https_not_http [of "pre @ x"]
    by (simp add: schemeAndRest_def)
qed

lemma schemeAndRest_none:
  "\<not> hasHttpScheme inputUrl \<Longrightarrow> schemeAndRest inputUrl = (''http'', inputUrl)"
  by (simp add: schemeAndRest_def hasHttpScheme_def)

text \<open>
  C7. \<^verbatim>\<open>parseUrl\<close> evaluated where the claim fails: for \<open>192.168.1.1\<close>, an
  input without port whose scheme becomes http, the port of the result is the empty
  string and not \<open>80\<close>; for \<open>https://example.com\<close> it is the empty string and not
  \<open>443\<close>. The assignment of the default port in \<^verbatim>\<open>parseUrl\<close> has no effect.
\<close>

theorem parseUrl_default_port_empty:
  "map_sum id (\<lambda>u. (protocol u, port u)) (parseUrl asciiHost ''192.168.1.1'')
     = Inr (''http:'', [])
   \<and> map_sum id (\<lambda>u. (protocol u, port u)) (parseUrl asciiHost ''https://example.com'')
     = Inr (''https:'', [])"
  by (simp add: url_eval)

text \<open>
  Explicit ports are kept as numbers: for an address \<open>host:digits\<close>, with or without
  scheme, followed by nothing or by a path, query or fragment, where the digits denote
  a number up to 65535 that is not the default port of the scheme, the port of the
  result is that number in decimal.
\<close>

lemma parseUrl_explicit_port:
  assumes input: "inputUrl = pre @ h @ CHR '':'' # ds @ tail"
    and pre: "(pre = [] \<and> \<not> hasHttpScheme inputUrl \<and> sch = ''http'') \<or>
              (map asciiLower pre = ''http://'' \<and> sch = ''http'') \<or>
              (map asciiLower pre = ''https://'' \<and> sch = ''https'')"
    and h: "h \<noteq> []" "\<forall>c\<in>set h. isHostBufferChar c" "hp h = Some h'"
    and ds: "ds \<noteq> []" "list_all isAsciiDigit ds" "decimal ds \<le> 65535"
            "defaultPort sch \<noteq> Some (decimal ds)"
    and tail: "tail = [] \<or> isAuthorityEnd (hd tail)"
  shows "\<exists>u. parseUrl hp inputUrl = Inr u \<and> protocol u = sch @ '':'' \<and> host u = h' \<and>
             port u = showNat (decimal ds)"
proof -
  have s: "schemeAndRest inputUrl = (sch, h @ CHR '':'' # ds @ tail)"
    using pre
  proof (elim disjE conjE)
    assume "pre = []" "\<not> hasHttpScheme inputUrl" "sch = ''http''"
    then show ?thesis using input schemeAndRest_none by simp
  next
    assume "map asciiLower pre = ''http://''" "sch = ''http''"
    then show ?thesis using input schemeAndRest_http by simp
  next
    assume "map asciiLower pre = ''https://''" "sch = ''https''"
    then show ?thesis using input schemeAndRest_https by simp
  qed
  have "parseAuthority hp sch (trimEnd (h @ CHR '':'' # ds @ tail)) =
      Inr \<lparr>scheme = sch, host = h', portNumber = Some (decimal ds), remainder = trimEnd tail\<rparr>"
    using authority_with_port [of h ds tail hp h' sch] h ds tail by blast
  then have "parseUrl hp inputUrl = map_sum id setDefaultPort
      (Inr \<lparr>scheme = sch, host = h', portNumber = Some (decimal ds), remainder = trimEnd tail\<rparr>)"
    by (simp only: parseUrl_unfold s fst_conv snd_conv)
  then have "parseUrl hp inputUrl =
      Inr \<lparr>scheme = sch, host = h', portNumber = Some (decimal ds), remainder = trimEnd tail\<rparr>"
    by (simp add: setDefaultPort_def port_def showNat_nonempty)
  then show ?thesis
    by (simp add: protocol_def port_def)
qed

lemmas url_eval2 = url_eval isHostBufferChar_def

lemma parseUrl_explicit_port_examples:
  "map_sum id port (parseUrl asciiHost ''x:0443'') = Inr ''443''
   \<and> map_sum id port (parseUrl asciiHost ''HTTPS://Example.com:8443/a?b'') = Inr ''8443''"
proof -
  obtain u where u: "parseUrl asciiHost ''x:0443'' = Inr u" "port u = showNat (decimal ''0443'')"
    using parseUrl_explicit_port [where inputUrl = "''x:0443''" and pre = "[]" and h = "''x''"
        and ds = "''0443''" and tail = "[]" and sch = "''http''" and hp = asciiHost and h' = "''x''"]
    by (auto simp: url_eval2)
  obtain v where v: "parseUrl asciiHost ''HTTPS://Example.com:8443/a?b'' = Inr v"
      "port v = showNat (decimal ''8443'')"
    using parseUrl_explicit_port [where inputUrl = "''HTTPS://Example.com:8443/a?b''"
        and pre = "''HTTPS://''" and h = "''Example.com''" and ds = "''8443''" and tail = "''/a?b''"
        and sch = "''https''" and hp = asciiHost and h' = "''example.com''"]
    by (auto simp: url_eval2)
  show ?thesis
    using u v by (simp add: decimal_def digitValue_def showNat.simps)
qed

end
